theory Spec2Isabelle
  imports Main "HOL-Library.Word" "HOL-Library.Monad_Syntax"
begin

unbundle bit_operations_syntax

section \<open>Data model (ata.h)\<close>

type_synonym u8 = "8 word"
type_synonym u16 = "16 word"
type_synonym u32 = "32 word"

text \<open>
  A pointer to a device object is an address; the null pointer is \<open>None\<close>. Every
  address holds a device object (wild pointers are outside the model), so a non-null
  pointer can always be dereferenced; dereferencing \<open>None\<close> is a fault.
\<close>

type_synonym addr = nat

text \<open>\<open>struct ata_device\<close>. \<open>size_t\<close> is the 32-bit \<open>u32\<close> of the i386 target.\<close>

record ata_device =
  dev_next :: "addr option"
  bus :: u16
  ctrl :: u16
  spinlock :: bool
  wait_irq :: int

definition ATA_PRIMARY_BUS :: u16 where "ATA_PRIMARY_BUS = 0x1f0"
definition ATA_PRIMARY_CTRL :: u16 where "ATA_PRIMARY_CTRL = 0x3f6"

definition ATA_REG_DATA :: u16 where "ATA_REG_DATA = 0x0"
definition ATA_REG_SECTOR_COUNT :: u16 where "ATA_REG_SECTOR_COUNT = 0x2"
definition ATA_REG_SECTOR_NUMBER :: u16 where "ATA_REG_SECTOR_NUMBER = 0x3"
definition ATA_REG_CYLINDER_LOW :: u16 where "ATA_REG_CYLINDER_LOW = 0x4"
definition ATA_REG_CYLINDER_HIGH :: u16 where "ATA_REG_CYLINDER_HIGH = 0x5"
definition ATA_REG_DRIVE :: u16 where "ATA_REG_DRIVE = 0x6"
definition ATA_REG_STATUS :: u16 where "ATA_REG_STATUS = 0x7"
definition ATA_REG_COMMAND :: u16 where "ATA_REG_COMMAND = 0x7"

definition ATA_CTRL_DEVICE_CONTROL :: u16 where "ATA_CTRL_DEVICE_CONTROL = 0x0"

definition ATA_STATUS_ERR :: u8 where "ATA_STATUS_ERR = 0x01"
definition ATA_STATUS_DRQ :: u8 where "ATA_STATUS_DRQ = 0x08"
definition ATA_STATUS_RDY :: u8 where "ATA_STATUS_RDY = 0x40"
definition ATA_STATUS_BSY :: u8 where "ATA_STATUS_BSY = 0x80"

definition ATA_CMD_IDENTIFY :: u8 where "ATA_CMD_IDENTIFY = 0xec"
definition ATA_CMD_READ_SECTORS :: u8 where "ATA_CMD_READ_SECTORS = 0x20"
definition ATA_CMD_WRITE_SECTORS :: u8 where "ATA_CMD_WRITE_SECTORS = 0x30"
definition ATA_CMD_CACHE_FLUSH :: u8 where "ATA_CMD_CACHE_FLUSH = 0xe7"

definition ATA_SECTOR_SIZE :: u32 where "ATA_SECTOR_SIZE = 0x200"

definition ATA_TYPE_UNKNOWN :: int where "ATA_TYPE_UNKNOWN = 0x0"
definition ATA_TYPE_PATA :: int where "ATA_TYPE_PATA = 0x1"
definition ATA_TYPE_PATAPI :: int where "ATA_TYPE_PATAPI = 0x2"
definition ATA_TYPE_SATA :: int where "ATA_TYPE_SATA = 0x3"
definition ATA_TYPE_SATAPI :: int where "ATA_TYPE_SATAPI = 0x4"

section \<open>The world the driver runs in\<close>

text \<open>
  Everything the driver does to its surroundings is appended to a trace, in the order
  in which it happens: port reads with the value read, port writes with the value
  written, taking and releasing a device's spinlock, yielding in \<open>kernel_wait\<close>, and
  the \<open>printf\<close> calls (format string and arguments).
\<close>

datatype event =
  Inb u16 u8
| Inw u16 u16
| Outb u16 u8
| Outw u16 u16
| SpinLock addr
| SpinUnlock addr
| KernelWait
| Printf string "u32 list"

text \<open>The two hooks that the kernel may run while a caller is suspended.\<close>

datatype hook = Irq | ErrCheck

datatype fault = NullDeref

text \<open>
  The surroundings are a parameter: a controller with a state of type \<open>'h\<close> behind
  the ports, the hooks that run during one \<open>kernel_wait\<close>, and the pool that
  \<open>cache_create\<close> hands out (\<open>None\<close> when it fails).
\<close>

record 'h env =
  inb_f :: "u16 \<Rightarrow> 'h \<Rightarrow> u8 \<times> 'h"
  inw_f :: "u16 \<Rightarrow> 'h \<Rightarrow> u16 \<times> 'h"
  outb_f :: "u16 \<Rightarrow> u8 \<Rightarrow> 'h \<Rightarrow> 'h"
  outw_f :: "u16 \<Rightarrow> u16 \<Rightarrow> 'h \<Rightarrow> 'h"
  kernel_wait_f :: "'h \<Rightarrow> hook list \<times> 'h"
  cache_create_f :: "addr list option"

text \<open>
  The assignments to a device's \<open>wait_irq\<close> are no input or output, so they are kept
  in a log of their own, in the order in which they happen: the function whose
  statement it is, the device assigned to, the value stored, and whether the spinlock
  of that device is held at that moment.
\<close>

datatype site = In_ata_irq | In_ata_err_check | In_ata_wait_ready

record flag_store =
  st_site :: site
  st_dev :: addr
  st_val :: int
  st_guard :: bool

text \<open>
  The state: the controller, the device objects, the two globals \<open>devices\<close> and
  \<open>devices_cache\<close> (the pool is the list of its free slots; \<open>None\<close> is the null
  pointer), the trace, and the log of the assignments to \<open>wait_irq\<close>.
\<close>

record 'h world =
  hw :: 'h
  mem :: "addr \<Rightarrow> ata_device"
  devices :: "addr option"
  devices_cache :: "addr list option"
  trace :: "event list"
  stores :: "flag_store list"

subsection \<open>Port input and output (kernel.h)\<close>

text \<open>
  Ports are 16 bits wide; \<open>dev->bus + ATA_REG_STATUS\<close> is computed in \<open>int\<close> and
  cut to 16 bits when it is passed, which is the addition of \<open>u16\<close>.
\<close>

definition inb :: "'h env \<Rightarrow> u16 \<Rightarrow> 'h world \<Rightarrow> u8 \<times> 'h world" where
  "inb env port w =
     (case inb_f env port (hw w) of
        (v, h) \<Rightarrow> (v, w\<lparr>hw := h, trace := trace w @ [Inb port v]\<rparr>))"

definition inw :: "'h env \<Rightarrow> u16 \<Rightarrow> 'h world \<Rightarrow> u16 \<times> 'h world" where
  "inw env port w =
     (case inw_f env port (hw w) of
        (v, h) \<Rightarrow> (v, w\<lparr>hw := h, trace := trace w @ [Inw port v]\<rparr>))"

definition outb :: "'h env \<Rightarrow> u16 \<Rightarrow> u8 \<Rightarrow> 'h world \<Rightarrow> 'h world" where
  "outb env port v w = w\<lparr>hw := outb_f env port v (hw w), trace := trace w @ [Outb port v]\<rparr>"

definition outw :: "'h env \<Rightarrow> u16 \<Rightarrow> u16 \<Rightarrow> 'h world \<Rightarrow> 'h world" where
  "outw env port v w = w\<lparr>hw := outw_f env port v (hw w), trace := trace w @ [Outw port v]\<rparr>"

subsection \<open>Spinlock and console (kernel.h)\<close>

text \<open>
  Modelled from the spec: \<open>spin_lock\<close> and \<open>spin_unlock\<close> are declared in kernel.h,
  which is not part of the sources. The guard is held by at most one command sequence;
  \<open>spin_lock\<close> returns with the guard held, \<open>spin_unlock\<close> releases it. Waiting for
  another holder is not modelled.
\<close>

definition spin_lock :: "addr \<Rightarrow> 'h world \<Rightarrow> 'h world" where
  "spin_lock a w =
     w\<lparr>mem := (mem w)(a := (mem w a)\<lparr>spinlock := True\<rparr>), trace := trace w @ [SpinLock a]\<rparr>"

definition spin_unlock :: "addr \<Rightarrow> 'h world \<Rightarrow> 'h world" where
  "spin_unlock a w =
     w\<lparr>mem := (mem w)(a := (mem w a)\<lparr>spinlock := False\<rparr>), trace := trace w @ [SpinUnlock a]\<rparr>"

text \<open>
  Modelled from the spec: \<open>printf\<close> is declared in kernel.h as well. The spec
  speaks of the messages of \<open>ata_init_device\<close> as logging on a side channel and
  nothing more, so a call is recorded in the trace with its format string and its
  arguments and changes nothing else.
\<close>

definition printf :: "string \<Rightarrow> u32 list \<Rightarrow> 'h world \<Rightarrow> 'h world" where
  "printf fmt args w = w\<lparr>trace := trace w @ [Printf fmt args]\<rparr>"

section \<open>The driver (ata.c)\<close>

definition ata_has_err :: "'h env \<Rightarrow> addr \<Rightarrow> 'h world \<Rightarrow> u8 \<times> 'h world" where
  "ata_has_err env dev w =
     (case inb env (bus (mem w dev) + ATA_REG_STATUS) w of
        (v, w1) \<Rightarrow> (v AND ATA_STATUS_ERR, w1))"

text \<open>
  \<open>dev->wait_irq = v;\<close> as a statement of the function \<open>s\<close>: the field is assigned and
  the assignment is logged.
\<close>

definition set_wait_irq :: "site \<Rightarrow> addr \<Rightarrow> int \<Rightarrow> 'h world \<Rightarrow> 'h world" where
  "set_wait_irq s dev v w =
     w\<lparr>mem := (mem w)(dev := (mem w dev)\<lparr>wait_irq := v\<rparr>),
       stores := stores w @
         [\<lparr>st_site = s, st_dev = dev, st_val = v, st_guard = spinlock (mem w dev)\<rparr>]\<rparr>"

text \<open>\<open>ata_irq\<close> dereferences \<open>devices\<close> without a check.\<close>

definition ata_irq :: "'h world \<Rightarrow> fault + 'h world" where
  "ata_irq w =
     (case devices w of
        None \<Rightarrow> Inl NullDeref
      | Some dev \<Rightarrow> Inr (set_wait_irq In_ata_irq dev 0 w))"

text \<open>
  The body of the \<open>while(d)\<close> loop of \<open>ata_err_check\<close>; \<open>&&\<close> reads the status port
  only when the flag is set.
\<close>

definition ata_err_check_body :: "'h env \<Rightarrow> addr \<Rightarrow> 'h world \<Rightarrow> 'h world" where
  "ata_err_check_body env d w =
     (if wait_irq (mem w d) \<noteq> 0 then
        (case ata_has_err env d w of
           (e, w1) \<Rightarrow>
             if e \<noteq> 0 then set_wait_irq In_ata_err_check d 0 w1 else w1)
      else w)"

text \<open>The list walk ends at a null \<open>next\<close>; on a cyclic list it never ends (\<open>None\<close>).\<close>

partial_function (option) ata_err_check_loop ::
  "'h env \<Rightarrow> addr option \<Rightarrow> 'h world \<Rightarrow> 'h world option" where
  "ata_err_check_loop env d w =
     (case d of
        None \<Rightarrow> Some w
      | Some a \<Rightarrow>
          (let w1 = ata_err_check_body env a w
           in ata_err_check_loop env (dev_next (mem w1 a)) w1))"

definition ata_err_check :: "'h env \<Rightarrow> 'h world \<Rightarrow> 'h world option" where
  "ata_err_check env w = ata_err_check_loop env (devices w) w"

text \<open>\<open>ata_wait\<close>: four reads of the port, the values thrown away.\<close>

function ata_wait_from :: "'h env \<Rightarrow> u16 \<Rightarrow> nat \<Rightarrow> 'h world \<Rightarrow> 'h world" where
  "ata_wait_from env port i w =
     (if i < 4 then ata_wait_from env port (i + 1) (snd (inb env port w)) else w)"
  by pat_completeness auto
termination
  by (relation "measure (\<lambda>(env, port, i, w). 4 - i)") auto

definition ata_wait :: "'h env \<Rightarrow> u16 \<Rightarrow> 'h world \<Rightarrow> 'h world" where
  "ata_wait env port w = ata_wait_from env port 0 w"

definition ata_check_floating_bus :: "'h env \<Rightarrow> u16 \<Rightarrow> 'h world \<Rightarrow> bool \<times> 'h world" where
  "ata_check_floating_bus env b w =
     (case inb env (b + ATA_REG_STATUS) w of (v, w1) \<Rightarrow> (v = 0xff, w1))"

definition ata_is_ready :: "'h env \<Rightarrow> u16 \<Rightarrow> 'h world \<Rightarrow> u8 \<times> 'h world" where
  "ata_is_ready env b w =
     (case inb env (b + ATA_REG_STATUS) w of (v, w1) \<Rightarrow> (v AND ATA_STATUS_RDY, w1))"

definition ata_is_busy :: "'h env \<Rightarrow> u16 \<Rightarrow> 'h world \<Rightarrow> u8 \<times> 'h world" where
  "ata_is_busy env b w =
     (case inb env (b + ATA_REG_STATUS) w of (v, w1) \<Rightarrow> (v AND ATA_STATUS_BSY, w1))"

text \<open>
  Modelled from the spec: \<open>kernel_wait\<close> is declared in kernel.h, which is not part of
  the sources. It yields until notified; while the caller is suspended the interrupt
  dispatcher may run \<open>ata_irq\<close> and the timer may run \<open>ata_err_check\<close>, in the order
  the surroundings give. A fault or a walk that never ends in a hook is \<open>None\<close>.
\<close>

fun run_hooks :: "'h env \<Rightarrow> hook list \<Rightarrow> 'h world \<Rightarrow> 'h world option" where
  "run_hooks env [] w = Some w"
| "run_hooks env (Irq # hs) w =
     (case ata_irq w of Inl f \<Rightarrow> None | Inr w1 \<Rightarrow> run_hooks env hs w1)"
| "run_hooks env (ErrCheck # hs) w =
     (case ata_err_check env w of None \<Rightarrow> None | Some w1 \<Rightarrow> run_hooks env hs w1)"

definition kernel_wait :: "'h env \<Rightarrow> 'h world \<Rightarrow> 'h world option" where
  "kernel_wait env w =
     (case kernel_wait_f env (hw w) of
        (hs, h) \<Rightarrow> run_hooks env hs (w\<lparr>hw := h, trace := trace w @ [KernelWait]\<rparr>))"

text \<open>
  The loop of \<open>ata_wait_ready\<close>: \<open>&&\<close> reads the status port only while the flag is
  set. Nothing bounds the loop: when the flag stays set and the ready bit never rises it
  does not return (\<open>None\<close>).
\<close>

partial_function (option) ata_wait_ready_loop ::
  "'h env \<Rightarrow> addr \<Rightarrow> 'h world \<Rightarrow> 'h world option" where
  "ata_wait_ready_loop env dev w =
     (if wait_irq (mem w dev) \<noteq> 0 then
        (case ata_is_ready env (bus (mem w dev)) w of
           (r, w1) \<Rightarrow>
             if r = 0 then
               (case kernel_wait env w1 of
                  None \<Rightarrow> None
                | Some w2 \<Rightarrow> ata_wait_ready_loop env dev w2)
             else Some w1)
      else Some w)"

definition ata_wait_ready :: "'h env \<Rightarrow> addr \<Rightarrow> 'h world \<Rightarrow> 'h world option" where
  "ata_wait_ready env dev w =
     (case ata_wait_ready_loop env dev (set_wait_irq In_ata_wait_ready dev 1 w) of
        None \<Rightarrow> None
      | Some w1 \<Rightarrow> Some (set_wait_irq In_ata_wait_ready dev 0 w1))"

definition ata_command :: "'h env \<Rightarrow> u16 \<Rightarrow> u8 \<Rightarrow> 'h world \<Rightarrow> 'h world" where
  "ata_command env b cmd w = outb env (b + ATA_REG_COMMAND) cmd w"

definition ata_select_drive :: "'h env \<Rightarrow> u16 \<Rightarrow> int \<Rightarrow> 'h world \<Rightarrow> 'h world" where
  "ata_select_drive env b slave w =
     outb env (b + ATA_REG_DRIVE) (if slave \<noteq> 0 then 0xa0 else 0xb0) w"

subsection \<open>Identify\<close>

text \<open>\<open>while(ata_is_busy(bus));\<close> polls without a bound.\<close>

partial_function (option) ata_identify_busy_loop ::
  "'h env \<Rightarrow> u16 \<Rightarrow> 'h world \<Rightarrow> 'h world option" where
  "ata_identify_busy_loop env b w =
     (case ata_is_busy env b w of
        (r, w1) \<Rightarrow> if r \<noteq> 0 then ata_identify_busy_loop env b w1 else Some w1)"

text \<open>The \<open>do ... while\<close> loop: polls until the error or the data-request bit is set.\<close>

partial_function (option) ata_identify_status_loop ::
  "'h env \<Rightarrow> u16 \<Rightarrow> 'h world \<Rightarrow> (u8 \<times> 'h world) option" where
  "ata_identify_status_loop env b w =
     (case inb env (b + ATA_REG_STATUS) w of
        (status, w1) \<Rightarrow>
          if status AND ATA_STATUS_ERR = 0 \<and> status AND ATA_STATUS_DRQ = 0
          then ata_identify_status_loop env b w1
          else Some (status, w1))"

text \<open>\<open>for(i = 0; i < 256; ++i) init_data[i] = inw(bus + ATA_REG_DATA);\<close>\<close>

function ata_identify_data ::
  "'h env \<Rightarrow> u16 \<Rightarrow> nat \<Rightarrow> u16 list \<Rightarrow> 'h world \<Rightarrow> u16 list \<times> 'h world" where
  "ata_identify_data env b i init_data w =
     (if i < 256 then
        (case inw env (b + ATA_REG_DATA) w of
           (v, w1) \<Rightarrow> ata_identify_data env b (i + 1) (init_data[i := v]) w1)
      else (init_data, w))"
  by pat_completeness auto
termination
  by (relation "measure (\<lambda>(env, b, i, init_data, w). 256 - i)") auto

text \<open>
  \<open>ata_identify\<close> returns 0 or 1; the second component is \<open>init_data\<close> after the call
  (an array of 256 words, untouched when the result is 0).
\<close>

definition ata_identify ::
  "'h env \<Rightarrow> u16 \<Rightarrow> int \<Rightarrow> u16 list \<Rightarrow> 'h world \<Rightarrow> (int \<times> u16 list \<times> 'h world) option" where
  "ata_identify env b slave init_data w =
     (let w1 = ata_select_drive env b slave w;
          w2 = outb env (b + ATA_REG_SECTOR_COUNT) 0x0 w1;
          w3 = outb env (b + ATA_REG_SECTOR_NUMBER) 0x0 w2;
          w4 = outb env (b + ATA_REG_CYLINDER_LOW) 0x0 w3;
          w5 = outb env (b + ATA_REG_CYLINDER_HIGH) 0x0 w4;
          w6 = ata_command env b ATA_CMD_IDENTIFY w5
      in case inb env (b + ATA_REG_STATUS) w6 of
           (status, w7) \<Rightarrow>
             if status = 0 then Some (0, init_data, w7)
             else
               (case ata_identify_busy_loop env b w7 of
                  None \<Rightarrow> None
                | Some w8 \<Rightarrow>
                    (case inb env (b + ATA_REG_CYLINDER_LOW) w8 of
                       (cl, w9) \<Rightarrow>
                         if cl \<noteq> 0 then Some (0, init_data, w9)
                         else
                           (case inb env (b + ATA_REG_CYLINDER_HIGH) w9 of
                              (ch, w10) \<Rightarrow>
                                if ch \<noteq> 0 then Some (0, init_data, w10)
                                else
                                  (case ata_identify_status_loop env b w10 of
                                     None \<Rightarrow> None
                                   | Some (status1, w11) \<Rightarrow>
                                       if status1 AND ATA_STATUS_ERR \<noteq> 0
                                       then Some (0, init_data, w11)
                                       else
                                         (case ata_identify_data env b 0 init_data w11 of
                                            (data, w12) \<Rightarrow> Some (1, data, w12)))))))"

text \<open>
  \<open>*(uint32_t *) (data + 60)\<close>: words 60 and 61, the low word first (little endian).
\<close>

definition ata_lba28_sectors :: "u16 list \<Rightarrow> u32" where
  "ata_lba28_sectors data = ucast (data ! 60) OR push_bit 16 (ucast (data ! 61))"

definition ata_supports_lba48 :: "u16 list \<Rightarrow> u16" where
  "ata_supports_lba48 data = (data ! 83) AND 0x400"

subsection \<open>The object pool (memory/memory.h)\<close>

text \<open>
  Modelled from the spec: \<open>cache_alloc\<close> and \<open>cache_free\<close> are declared in
  memory/memory.h, which is not part of the sources. The pool is an opaque allocator of
  fixed-size objects: \<open>cache_alloc\<close> takes a free slot and zero-initialises it, or
  returns the null pointer when there is none (or no pool); \<open>cache_free\<close> returns the
  slot to the pool.
\<close>

definition zero_device :: ata_device where
  "zero_device = \<lparr>dev_next = None, bus = 0, ctrl = 0, spinlock = False, wait_irq = 0\<rparr>"

definition cache_alloc :: "'h world \<Rightarrow> addr option \<times> 'h world" where
  "cache_alloc w =
     (case devices_cache w of
        None \<Rightarrow> (None, w)
      | Some [] \<Rightarrow> (None, w)
      | Some (a # slots) \<Rightarrow>
          (Some a, w\<lparr>mem := (mem w)(a := zero_device), devices_cache := Some slots\<rparr>))"

definition cache_free :: "addr \<Rightarrow> 'h world \<Rightarrow> 'h world" where
  "cache_free a w = w\<lparr>devices_cache := map_option ((#) a) (devices_cache w)\<rparr>"

subsection \<open>Registration\<close>

text \<open>
  \<open>ata_init_device\<close> returns the device pointer, null on every failure. \<open>init_data\<close>
  is an uninitialised array on the stack; it is read only after \<open>ata_identify\<close> has
  filled it, so its first contents (zeros here) do not matter.
\<close>

definition ata_init_device ::
  "'h env \<Rightarrow> u16 \<Rightarrow> u16 \<Rightarrow> 'h world \<Rightarrow> (addr option \<times> 'h world) option" where
  "ata_init_device env b c w =
     (case cache_alloc w of
        (None, w1) \<Rightarrow> Some (None, w1)
      | (Some dev, w1) \<Rightarrow>
          (let w2 = w1\<lparr>mem := (mem w1)(dev := (mem w1 dev)\<lparr>bus := b\<rparr>)\<rparr>;
               w3 = w2\<lparr>mem := (mem w2)(dev := (mem w2 dev)\<lparr>ctrl := c\<rparr>)\<rparr>
           in case ata_check_floating_bus env b w3 of
                (floating, w4) \<Rightarrow>
                  if floating then
                    Some (None, cache_free dev (printf ''ATA floating bus detected\<newline>'' [] w4))
                  else
                    (case ata_identify env b 0 (replicate 256 0) w4 of
                       None \<Rightarrow> None
                     | Some (ok, init_data, w5) \<Rightarrow>
                         if ok = 0 then
                           Some (None, cache_free dev (printf ''ATA identify failed\<newline>'' [] w5))
                         else
                           (let sectors = ata_lba28_sectors init_data;
                                w6 = (if sectors \<noteq> 0
                                      then printf ''ATA LBA28 sectors: %u\<newline>'' [sectors] w5
                                      else w5);
                                w7 = (if ata_supports_lba48 init_data \<noteq> 0
                                      then printf ''ATA LBA48 supported\<newline>'' [] w6
                                      else w6);
                                w8 = printf ''ATA disk size: %u bytes\<newline>''
                                       [sectors * ATA_SECTOR_SIZE] w7;
                                w9 = printf ''ATA initialized!\<newline>'' [] w8
                            in Some (Some dev, w9)))))"

definition ata_init :: "'h env \<Rightarrow> 'h world \<Rightarrow> 'h world option" where
  "ata_init env w =
     (let w1 = w\<lparr>devices_cache := cache_create_f env\<rparr>
      in if devices_cache w1 = None then Some w1
         else
           (case ata_init_device env ATA_PRIMARY_BUS ATA_PRIMARY_CTRL w1 of
              None \<Rightarrow> None
            | Some (dev, w2) \<Rightarrow> Some (w2\<lparr>devices := dev\<rparr>)))"

subsection \<open>Reset and type probe\<close>

text \<open>
  \<open>reg\<close> is a \<open>uint8_t\<close>: the control port is cut to its low 8 bits before it is used.
\<close>

definition ata_reset :: "'h env \<Rightarrow> addr option \<Rightarrow> 'h world \<Rightarrow> 'h world" where
  "ata_reset env dev w =
     (case dev of
        None \<Rightarrow> w
      | Some d \<Rightarrow>
          (let reg = (ucast (ctrl (mem w d) + ATA_CTRL_DEVICE_CONTROL) :: u8) in
           case inb env (ucast reg) w of
             (v1, w1) \<Rightarrow>
               (let w2 = outb env (ucast reg) (v1 OR 0b100) w1 in
                case inb env (ucast reg) w2 of
                  (v2, w3) \<Rightarrow> outb env (ucast reg) (v2 AND NOT 0b100) w3)))"

definition ata_get_type :: "'h env \<Rightarrow> addr option \<Rightarrow> int \<Rightarrow> 'h world \<Rightarrow> int \<times> 'h world" where
  "ata_get_type env dev slave w =
     (case dev of
        None \<Rightarrow> (ATA_TYPE_UNKNOWN, w)
      | Some d \<Rightarrow>
          (let w1 = ata_reset env dev w;
               w2 = ata_select_drive env (bus (mem w1 d)) slave w1;
               w3 = ata_wait env (ctrl (mem w2 d)) w2
           in case inb env (bus (mem w3 d) + ATA_REG_CYLINDER_LOW) w3 of
                (cl, w4) \<Rightarrow>
                  (case inb env (bus (mem w4 d) + ATA_REG_CYLINDER_HIGH) w4 of
                     (ch, w5) \<Rightarrow>
                       if cl = 0 \<and> ch = 0 then (ATA_TYPE_PATA, w5)
                       else if cl = 0x14 \<and> ch = 0xeb then (ATA_TYPE_PATAPI, w5)
                       else if cl = 0x3c \<and> ch = 0xc3 then (ATA_TYPE_SATA, w5)
                       else if cl = 0x69 \<and> ch = 0x96 then (ATA_TYPE_SATAPI, w5)
                       else (ATA_TYPE_UNKNOWN, w5))))"

subsection \<open>Reading and writing sectors\<close>

text \<open>
  The caller's buffer is the list of 16-bit words that starts at \<open>buff\<close>; \<open>pos\<close> is how
  far the pointer has moved, in words. An access past the end of the buffer is undefined
  behaviour (\<open>None\<close>).

  \<open>for(j = 0; j < 256; ++j) { *((uint16_t *) buff) = inw(...); buff += 2; }\<close>
\<close>

function ata_read_words ::
  "'h env \<Rightarrow> addr \<Rightarrow> nat \<Rightarrow> u16 list \<Rightarrow> nat \<Rightarrow> 'h world \<Rightarrow> (u16 list \<times> nat \<times> 'h world) option" where
  "ata_read_words env dev j buff pos w =
     (if j < 256 then
        (case inw env (bus (mem w dev) + ATA_REG_DATA) w of
           (v, w1) \<Rightarrow>
             if pos < length buff
             then ata_read_words env dev (j + 1) (buff[pos := v]) (pos + 1) w1
             else None)
      else Some (buff, pos, w))"
  by pat_completeness auto
termination
  by (relation "measure (\<lambda>(env, dev, j, buff, pos, w). 256 - j)") auto

text \<open>
  The sector loop of \<open>ata_read\<close>, from sector \<open>i\<close>. The first component of the result
  is the value of an early \<open>return\<close>, if any.
\<close>

function ata_read_loop ::
  "'h env \<Rightarrow> addr \<Rightarrow> nat \<Rightarrow> nat \<Rightarrow> u16 list \<Rightarrow> nat \<Rightarrow> 'h world
     \<Rightarrow> (int option \<times> u16 list \<times> nat \<times> 'h world) option" where
  "ata_read_loop env dev i sectors buff pos w =
     (if i < sectors then
        (case ata_wait_ready env dev w of
           None \<Rightarrow> None
         | Some w1 \<Rightarrow>
             (case ata_has_err env dev w1 of
                (e, w2) \<Rightarrow>
                  if e \<noteq> 0 then Some (Some (- 1), buff, pos, spin_unlock dev w2)
                  else
                    (case ata_read_words env dev 0 buff pos w2 of
                       None \<Rightarrow> None
                     | Some (buff1, pos1, w3) \<Rightarrow>
                         ata_read_loop env dev (i + 1) sectors buff1 pos1
                           (if i \<ge> sectors then ata_wait env (ctrl (mem w3 dev)) w3 else w3))))
      else Some (None, buff, pos, w))"
  by pat_completeness auto
termination
  by (relation "measure (\<lambda>(env, dev, i, sectors, buff, pos, w). sectors - i)") auto

definition ata_read ::
  "'h env \<Rightarrow> addr option \<Rightarrow> int \<Rightarrow> u32 \<Rightarrow> u16 list option \<Rightarrow> u32 \<Rightarrow> 'h world
     \<Rightarrow> (int \<times> u16 list option \<times> 'h world) option" where
  "ata_read env dev slave lba buff sectors w =
     (case dev of
        None \<Rightarrow> Some (- 1, buff, w)
      | Some d \<Rightarrow>
          (case buff of
             None \<Rightarrow> Some (- 1, buff, w)
           | Some b \<Rightarrow>
               if sectors > 0xff then Some (- 1, buff, w)
               else
                 (let w1 = spin_lock d w;
                      w2 = outb env (bus (mem w1 d) + ATA_REG_DRIVE)
                             (ucast ((if slave \<noteq> 0 then 0xe0 else 0xf0)
                                OR (drop_bit 24 lba AND 0xf))) w1;
                      w3 = outb env (bus (mem w2 d) + ATA_REG_SECTOR_COUNT) (ucast sectors) w2;
                      w4 = outb env (bus (mem w3 d) + ATA_REG_SECTOR_NUMBER) (ucast lba) w3;
                      w5 = outb env (bus (mem w4 d) + ATA_REG_CYLINDER_LOW)
                             (ucast (drop_bit 8 lba)) w4;
                      w6 = outb env (bus (mem w5 d) + ATA_REG_CYLINDER_HIGH)
                             (ucast (drop_bit 16 lba)) w5;
                      w7 = ata_command env (bus (mem w6 d)) ATA_CMD_READ_SECTORS w6
                  in case ata_read_loop env d 0 (unat sectors) b 0 w7 of
                       None \<Rightarrow> None
                     | Some (Some r, b1, pos, w8) \<Rightarrow> Some (r, Some b1, w8)
                     | Some (None, b1, pos, w8) \<Rightarrow> Some (0, Some b1, spin_unlock d w8))))"

text \<open>
  \<open>for(j = 0; j < 256; ++j) { outw(..., *((uint16_t *) buff)); buff += 2; }\<close>
\<close>

function ata_write_words ::
  "'h env \<Rightarrow> addr \<Rightarrow> nat \<Rightarrow> u16 list \<Rightarrow> nat \<Rightarrow> 'h world \<Rightarrow> (nat \<times> 'h world) option" where
  "ata_write_words env dev j buff pos w =
     (if j < 256 then
        (if pos < length buff
         then ata_write_words env dev (j + 1) buff (pos + 1)
                (outw env (bus (mem w dev) + ATA_REG_DATA) (buff ! pos) w)
         else None)
      else Some (pos, w))"
  by pat_completeness auto
termination
  by (relation "measure (\<lambda>(env, dev, j, buff, pos, w). 256 - j)") auto

function ata_write_loop ::
  "'h env \<Rightarrow> addr \<Rightarrow> nat \<Rightarrow> nat \<Rightarrow> u16 list \<Rightarrow> nat \<Rightarrow> 'h world
     \<Rightarrow> (int option \<times> nat \<times> 'h world) option" where
  "ata_write_loop env dev i sectors buff pos w =
     (if i < sectors then
        (case ata_wait_ready env dev w of
           None \<Rightarrow> None
         | Some w1 \<Rightarrow>
             (case ata_has_err env dev w1 of
                (e, w2) \<Rightarrow>
                  if e \<noteq> 0 then Some (Some (- 1), pos, spin_unlock dev w2)
                  else
                    (case ata_write_words env dev 0 buff pos w2 of
                       None \<Rightarrow> None
                     | Some (pos1, w3) \<Rightarrow> ata_write_loop env dev (i + 1) sectors buff pos1 w3)))
      else Some (None, pos, w))"
  by pat_completeness auto
termination
  by (relation "measure (\<lambda>(env, dev, i, sectors, buff, pos, w). sectors - i)") auto

definition ata_write ::
  "'h env \<Rightarrow> addr option \<Rightarrow> int \<Rightarrow> u32 \<Rightarrow> u16 list option \<Rightarrow> u32 \<Rightarrow> 'h world
     \<Rightarrow> (int \<times> 'h world) option" where
  "ata_write env dev slave lba buff sectors w =
     (case dev of
        None \<Rightarrow> Some (- 1, w)
      | Some d \<Rightarrow>
          (case buff of
             None \<Rightarrow> Some (- 1, w)
           | Some b \<Rightarrow>
               if sectors > 0xff then Some (- 1, w)
               else
                 (let w1 = spin_lock d w;
                      w2 = outb env (bus (mem w1 d) + ATA_REG_DRIVE)
                             (ucast ((if slave \<noteq> 0 then 0xe0 else 0xf0)
                                OR (drop_bit 24 lba AND 0xf))) w1;
                      w3 = outb env (bus (mem w2 d) + ATA_REG_SECTOR_COUNT) (ucast sectors) w2;
                      w4 = outb env (bus (mem w3 d) + ATA_REG_SECTOR_NUMBER) (ucast lba) w3;
                      w5 = outb env (bus (mem w4 d) + ATA_REG_CYLINDER_LOW)
                             (ucast (drop_bit 8 lba)) w4;
                      w6 = outb env (bus (mem w5 d) + ATA_REG_CYLINDER_HIGH)
                             (ucast (drop_bit 16 lba)) w5;
                      w7 = ata_command env (bus (mem w6 d)) ATA_CMD_WRITE_SECTORS w6
                  in case ata_write_loop env d 0 (unat sectors) b 0 w7 of
                       None \<Rightarrow> None
                     | Some (Some r, pos, w8) \<Rightarrow> Some (r, w8)
                     | Some (None, pos, w8) \<Rightarrow>
                         Some (0, spin_unlock d (ata_command env (bus (mem w8 d))
                                                   ATA_CMD_CACHE_FLUSH w8)))))"

section \<open>Notions used in the statements\<close>

text \<open>
  The first seven statements of \<open>ata_read\<close> and of \<open>ata_write\<close> are the same but for
  the command byte: take the guard, then six port writes. \<open>ata_setup\<close> is the world
  after them.
\<close>

definition ata_setup ::
  "'h env \<Rightarrow> addr \<Rightarrow> int \<Rightarrow> u32 \<Rightarrow> u32 \<Rightarrow> u8 \<Rightarrow> 'h world \<Rightarrow> 'h world" where
  "ata_setup env d slave lba sectors cmd w =
     (let w1 = spin_lock d w;
          w2 = outb env (bus (mem w1 d) + ATA_REG_DRIVE)
                 (ucast ((if slave \<noteq> 0 then 0xe0 else 0xf0) OR (drop_bit 24 lba AND 0xf))) w1;
          w3 = outb env (bus (mem w2 d) + ATA_REG_SECTOR_COUNT) (ucast sectors) w2;
          w4 = outb env (bus (mem w3 d) + ATA_REG_SECTOR_NUMBER) (ucast lba) w3;
          w5 = outb env (bus (mem w4 d) + ATA_REG_CYLINDER_LOW) (ucast (drop_bit 8 lba)) w4;
          w6 = outb env (bus (mem w5 d) + ATA_REG_CYLINDER_HIGH) (ucast (drop_bit 16 lba)) w5
      in ata_command env (bus (mem w6 d)) cmd w6)"

text \<open>The events of the setup, in the order of the source.\<close>

definition setup_events :: "addr \<Rightarrow> u16 \<Rightarrow> int \<Rightarrow> u32 \<Rightarrow> u32 \<Rightarrow> u8 \<Rightarrow> event list" where
  "setup_events d b slave lba sectors cmd =
     [SpinLock d,
      Outb (b + ATA_REG_DRIVE)
        ((if slave \<noteq> 0 then 0xe0 else 0xf0) OR ucast (drop_bit 24 lba AND 0xf)),
      Outb (b + ATA_REG_SECTOR_COUNT) (ucast sectors),
      Outb (b + ATA_REG_SECTOR_NUMBER) (ucast lba),
      Outb (b + ATA_REG_CYLINDER_LOW) (ucast (drop_bit 8 lba)),
      Outb (b + ATA_REG_CYLINDER_HIGH) (ucast (drop_bit 16 lba)),
      Outb (b + ATA_REG_COMMAND) cmd]"

text \<open>Transfers through the data register: \<open>inw\<close> and \<open>outw\<close> are used for nothing else.\<close>

fun is_data_in :: "event \<Rightarrow> bool" where
  "is_data_in (Inw p v) = True"
| "is_data_in e = False"

fun is_data_out :: "event \<Rightarrow> bool" where
  "is_data_out (Outw p v) = True"
| "is_data_out e = False"

definition data_ins :: "event list \<Rightarrow> nat" where
  "data_ins tr = length (filter is_data_in tr)"

definition data_outs :: "event list \<Rightarrow> nat" where
  "data_outs tr = length (filter is_data_out tr)"

text \<open>
  The world after the reset, the drive select and the settle delay of \<open>ata_get_type\<close>:
  the world in which it reads the two cylinder registers.
\<close>

definition ata_settled :: "'h env \<Rightarrow> addr \<Rightarrow> int \<Rightarrow> 'h world \<Rightarrow> 'h world" where
  "ata_settled env d slave w =
     (let w1 = ata_reset env (Some d) w;
          w2 = ata_select_drive env (bus (mem w1 d)) slave w1
      in ata_wait env (ctrl (mem w2 d)) w2)"

text \<open>
  The sector loop of \<open>ata_read\<close> with the settle delay left out, as the spec reads it
  (a no-op), and \<open>ata_read\<close> over that loop.
\<close>

function ata_read_loop_no_settle ::
  "'h env \<Rightarrow> addr \<Rightarrow> nat \<Rightarrow> nat \<Rightarrow> u16 list \<Rightarrow> nat \<Rightarrow> 'h world
     \<Rightarrow> (int option \<times> u16 list \<times> nat \<times> 'h world) option" where
  "ata_read_loop_no_settle env dev i sectors buff pos w =
     (if i < sectors then
        (case ata_wait_ready env dev w of
           None \<Rightarrow> None
         | Some w1 \<Rightarrow>
             (case ata_has_err env dev w1 of
                (e, w2) \<Rightarrow>
                  if e \<noteq> 0 then Some (Some (- 1), buff, pos, spin_unlock dev w2)
                  else
                    (case ata_read_words env dev 0 buff pos w2 of
                       None \<Rightarrow> None
                     | Some (buff1, pos1, w3) \<Rightarrow>
                         ata_read_loop_no_settle env dev (i + 1) sectors buff1 pos1 w3)))
      else Some (None, buff, pos, w))"
  by pat_completeness auto
termination
  by (relation "measure (\<lambda>(env, dev, i, sectors, buff, pos, w). sectors - i)") auto

definition ata_read_no_settle ::
  "'h env \<Rightarrow> addr option \<Rightarrow> int \<Rightarrow> u32 \<Rightarrow> u16 list option \<Rightarrow> u32 \<Rightarrow> 'h world
     \<Rightarrow> (int \<times> u16 list option \<times> 'h world) option" where
  "ata_read_no_settle env dev slave lba buff sectors w =
     (case dev of
        None \<Rightarrow> Some (- 1, buff, w)
      | Some d \<Rightarrow>
          (case buff of
             None \<Rightarrow> Some (- 1, buff, w)
           | Some b \<Rightarrow>
               if sectors > 0xff then Some (- 1, buff, w)
               else
                 (case ata_read_loop_no_settle env d 0 (unat sectors) b 0
                         (ata_setup env d slave lba sectors ATA_CMD_READ_SECTORS w) of
                    None \<Rightarrow> None
                  | Some (Some r, b1, pos, w8) \<Rightarrow> Some (r, Some b1, w8)
                  | Some (None, b1, pos, w8) \<Rightarrow> Some (0, Some b1, spin_unlock d w8))))"

text \<open>The words that went through the data register, in order.\<close>

fun words_out :: "event list \<Rightarrow> u16 list" where
  "words_out [] = []"
| "words_out (Outw p v # es) = v # words_out es"
| "words_out (e # es) = words_out es"

fun words_in :: "event list \<Rightarrow> u16 list" where
  "words_in [] = []"
| "words_in (Inw p v # es) = v # words_in es"
| "words_in (e # es) = words_in es"

text \<open>
  Relations between the world before and after a step, used in the proofs. A quiet step
  leaves the device list, the pool and every device field but the interrupt flag as
  they were, and transfers no data; a steady step may transfer data; in both the trace
  only grows.
\<close>

definition quiet :: "'h world \<Rightarrow> 'h world \<Rightarrow> bool" where
  "quiet w w' \<longleftrightarrow>
     devices w' = devices w \<and> devices_cache w' = devices_cache w \<and>
     (\<forall>a. dev_next (mem w' a) = dev_next (mem w a) \<and> bus (mem w' a) = bus (mem w a) \<and>
          ctrl (mem w' a) = ctrl (mem w a) \<and> spinlock (mem w' a) = spinlock (mem w a)) \<and>
     (\<exists>rest. trace w' = trace w @ rest \<and> data_ins rest = 0 \<and> data_outs rest = 0)"

definition steady :: "'h world \<Rightarrow> 'h world \<Rightarrow> bool" where
  "steady w w' \<longleftrightarrow>
     devices w' = devices w \<and> devices_cache w' = devices_cache w \<and>
     (\<forall>a. dev_next (mem w' a) = dev_next (mem w a) \<and> bus (mem w' a) = bus (mem w a) \<and>
          ctrl (mem w' a) = ctrl (mem w a) \<and> spinlock (mem w' a) = spinlock (mem w a)) \<and>
     (\<exists>rest. trace w' = trace w @ rest)"

text \<open>
  The interrupt flags after a run of logged assignments, from the flags before; and a
  step from \<open>w\<close> to \<open>w'\<close> that is accounted for by its log: the log has only grown,
  every assignment added satisfies \<open>P\<close>, and the flags of \<open>w'\<close> are the flags of
  \<open>w\<close> with the added assignments made in their order, so that no flag changes
  without an entry in the log.
\<close>

fun replay :: "flag_store list \<Rightarrow> (addr \<Rightarrow> int) \<Rightarrow> addr \<Rightarrow> int" where
  "replay [] f = f"
| "replay (s # ss) f = replay ss (f(st_dev s := st_val s))"

definition logged :: "(flag_store \<Rightarrow> bool) \<Rightarrow> 'h world \<Rightarrow> 'h world \<Rightarrow> bool" where
  "logged P w w' \<longleftrightarrow>
     (\<exists>new. stores w' = stores w @ new \<and> (\<forall>s\<in>set new. P s) \<and>
        (\<forall>a. wait_irq (mem w' a) = replay new (\<lambda>a. wait_irq (mem w a)) a))"

text \<open>
  The two kinds of assignment that occur while a command runs: one made by a hook
  during a wait (\<open>ata_irq\<close> or \<open>ata_err_check\<close>), which stores 0; and one made by
  \<open>ata_wait_ready\<close> for the device of the command while the guard of that device is
  held, which stores 1 or 0.
\<close>

definition by_hook :: "flag_store \<Rightarrow> bool" where
  "by_hook s \<longleftrightarrow> (st_site s = In_ata_irq \<or> st_site s = In_ata_err_check) \<and> st_val s = 0"

definition by_waiter :: "addr option \<Rightarrow> flag_store \<Rightarrow> bool" where
  "by_waiter dev s \<longleftrightarrow>
     st_site s = In_ata_wait_ready \<and> dev = Some (st_dev s) \<and> st_guard s \<and>
     (st_val s = 1 \<or> st_val s = 0)"

section \<open>Simulated controllers\<close>

text \<open>
  A controller without state: every port reads as a fixed value, writes are dropped,
  and no hook runs during a wait.
\<close>

definition regs_env :: "(u16 \<Rightarrow> u8) \<Rightarrow> unit env" where
  "regs_env f =
     \<lparr>inb_f = (\<lambda>p h. (f p, h)), inw_f = (\<lambda>p h. (0, h)),
      outb_f = (\<lambda>p v h. h), outw_f = (\<lambda>p v h. h),
      kernel_wait_f = (\<lambda>h. ([], h)), cache_create_f = Some [0]\<rparr>"

text \<open>A device on the primary controller, and a world that holds it at every address.\<close>

definition primary_device :: ata_device where
  "primary_device =
     \<lparr>dev_next = None, bus = ATA_PRIMARY_BUS, ctrl = ATA_PRIMARY_CTRL,
      spinlock = False, wait_irq = 0\<rparr>"

definition test_world :: "'h \<Rightarrow> 'h world" where
  "test_world h =
     \<lparr>hw = h, mem = (\<lambda>a. primary_device), devices = None, devices_cache = None,
      trace = [], stores = []\<rparr>"

text \<open>
  A bus without a controller (every port reads as all-ones), a controller without a
  drive (every port reads as 0), a world whose pool has one free slot, and a world with
  one registered device whose interrupt flag is set.
\<close>

definition floating_env :: "unit env" where
  "floating_env = regs_env (\<lambda>p. 0xff)"

definition absent_env :: "unit env" where
  "absent_env = regs_env (\<lambda>p. 0x00)"

definition pool_world :: "unit world" where
  "pool_world = (test_world ())\<lparr>devices_cache := Some [0]\<rparr>"

definition armed_world :: "unit world" where
  "armed_world =
     \<lparr>hw = (), mem = (\<lambda>a. primary_device\<lparr>wait_irq := 1\<rparr>), devices = Some 0,
      devices_cache = None, trace = [], stores = []\<rparr>"

text \<open>
  A controller whose status never shows ready and always shows the error bit, in a
  system that runs the error poll and then the interrupt hook during every
  \<open>kernel_wait\<close>.
\<close>

definition hooks_env :: "unit env" where
  "hooks_env = (regs_env (\<lambda>p. 0x01))\<lparr>kernel_wait_f := (\<lambda>h. ([ErrCheck, Irq], h))\<rparr>"

text \<open>
  A disk double: the task-file registers, a command in progress (the word address of the
  next data word and the number of words left), the stored words of both drives by word
  address, and a set of bad sectors. The status always shows ready; it shows data
  request while a command has words left, and error when the sector under the cursor
  is bad. A sector count of 0 stands for 256.
\<close>

datatype sim_mode = Idle | Reading | Writing

record sim_disk =
  reg_drive :: u8
  reg_count :: u8
  reg_sector :: u8
  reg_cyl_low :: u8
  reg_cyl_high :: u8
  mode :: sim_mode
  cursor :: nat
  remaining :: nat
  media :: "bool \<Rightarrow> nat \<Rightarrow> u16"
  bad :: "nat \<Rightarrow> bool"

definition sim_sel :: "sim_disk \<Rightarrow> bool" where
  "sim_sel h = (reg_drive h AND 0x10 \<noteq> 0)"

definition sim_lba :: "sim_disk \<Rightarrow> nat" where
  "sim_lba h =
     unat (reg_drive h AND 0x0f) * 2 ^ 24 + unat (reg_cyl_high h) * 2 ^ 16 +
     unat (reg_cyl_low h) * 2 ^ 8 + unat (reg_sector h)"

definition sim_count :: "sim_disk \<Rightarrow> nat" where
  "sim_count h = (if reg_count h = 0 then 256 else unat (reg_count h))"

definition sim_active :: "sim_disk \<Rightarrow> bool" where
  "sim_active h = (mode h \<noteq> Idle \<and> 0 < remaining h)"

definition sim_status :: "sim_disk \<Rightarrow> u8" where
  "sim_status h =
     (if sim_active h
      then (if bad h (cursor h div 256)
            then ATA_STATUS_RDY OR ATA_STATUS_DRQ OR ATA_STATUS_ERR
            else ATA_STATUS_RDY OR ATA_STATUS_DRQ)
      else ATA_STATUS_RDY)"

definition sim_inb :: "u16 \<Rightarrow> u16 \<Rightarrow> sim_disk \<Rightarrow> u8 \<times> sim_disk" where
  "sim_inb base port h =
     (if port - base = ATA_REG_STATUS then (sim_status h, h)
      else if port - base = ATA_REG_SECTOR_COUNT then (reg_count h, h)
      else if port - base = ATA_REG_SECTOR_NUMBER then (reg_sector h, h)
      else if port - base = ATA_REG_CYLINDER_LOW then (reg_cyl_low h, h)
      else if port - base = ATA_REG_CYLINDER_HIGH then (reg_cyl_high h, h)
      else if port - base = ATA_REG_DRIVE then (reg_drive h, h)
      else (0, h))"

definition sim_command :: "u8 \<Rightarrow> sim_disk \<Rightarrow> sim_disk" where
  "sim_command cmd h =
     (if cmd = ATA_CMD_READ_SECTORS then
        h\<lparr>mode := Reading, cursor := sim_lba h * 256, remaining := sim_count h * 256\<rparr>
      else if cmd = ATA_CMD_WRITE_SECTORS then
        h\<lparr>mode := Writing, cursor := sim_lba h * 256, remaining := sim_count h * 256\<rparr>
      else h\<lparr>mode := Idle, remaining := 0\<rparr>)"

definition sim_outb :: "u16 \<Rightarrow> u16 \<Rightarrow> u8 \<Rightarrow> sim_disk \<Rightarrow> sim_disk" where
  "sim_outb base port v h =
     (if port - base = ATA_REG_COMMAND then sim_command v h
      else if port - base = ATA_REG_SECTOR_COUNT then h\<lparr>reg_count := v\<rparr>
      else if port - base = ATA_REG_SECTOR_NUMBER then h\<lparr>reg_sector := v\<rparr>
      else if port - base = ATA_REG_CYLINDER_LOW then h\<lparr>reg_cyl_low := v\<rparr>
      else if port - base = ATA_REG_CYLINDER_HIGH then h\<lparr>reg_cyl_high := v\<rparr>
      else if port - base = ATA_REG_DRIVE then h\<lparr>reg_drive := v\<rparr>
      else h)"

definition sim_inw :: "u16 \<Rightarrow> u16 \<Rightarrow> sim_disk \<Rightarrow> u16 \<times> sim_disk" where
  "sim_inw base port h =
     (if port - base = ATA_REG_DATA \<and> mode h = Reading \<and> 0 < remaining h
      then (media h (sim_sel h) (cursor h),
            h\<lparr>cursor := cursor h + 1, remaining := remaining h - 1\<rparr>)
      else (0, h))"

definition sim_outw :: "u16 \<Rightarrow> u16 \<Rightarrow> u16 \<Rightarrow> sim_disk \<Rightarrow> sim_disk" where
  "sim_outw base port v h =
     (if port - base = ATA_REG_DATA \<and> mode h = Writing \<and> 0 < remaining h
      then h\<lparr>media := (media h)(sim_sel h := (media h (sim_sel h))(cursor h := v)),
             cursor := cursor h + 1, remaining := remaining h - 1\<rparr>
      else h)"

definition sim_env :: "u16 \<Rightarrow> sim_disk env" where
  "sim_env base =
     \<lparr>inb_f = sim_inb base, inw_f = sim_inw base,
      outb_f = sim_outb base, outw_f = sim_outw base,
      kernel_wait_f = (\<lambda>h. ([], h)), cache_create_f = Some [0]\<rparr>"

text \<open>An idle disk with zeroed registers, all words 0, and the given bad sectors.\<close>

definition sim_disk0 :: "(nat \<Rightarrow> bool) \<Rightarrow> sim_disk" where
  "sim_disk0 bd =
     \<lparr>reg_drive = 0, reg_count = 0, reg_sector = 0, reg_cyl_low = 0, reg_cyl_high = 0,
      mode = Idle, cursor = 0, remaining = 0, media = (\<lambda>s a. 0), bad = bd\<rparr>"

text \<open>Storing a run of words from a word address on.\<close>

fun store_words :: "(nat \<Rightarrow> u16) \<Rightarrow> nat \<Rightarrow> u16 list \<Rightarrow> (nat \<Rightarrow> u16)" where
  "store_words m c [] = m"
| "store_words m c (v # vs) = store_words (m(c := v)) (c + 1) vs"

section \<open>Basic facts\<close>

declare ata_wait_from.simps [simp del]
declare ata_identify_data.simps [simp del]
declare ata_read_words.simps [simp del]
declare ata_read_loop.simps [simp del]
declare ata_write_words.simps [simp del]
declare ata_write_loop.simps [simp del]
declare ata_read_loop_no_settle.simps [simp del]

declare ata_err_check_loop.simps [code]
declare ata_wait_ready_loop.simps [code]
declare ata_identify_busy_loop.simps [code]
declare ata_identify_status_loop.simps [code]

lemma set_wait_irq_fields [simp]:
  "mem (set_wait_irq s a v w) = (mem w)(a := (mem w a)\<lparr>wait_irq := v\<rparr>)"
  "hw (set_wait_irq s a v w) = hw w"
  "devices (set_wait_irq s a v w) = devices w"
  "devices_cache (set_wait_irq s a v w) = devices_cache w"
  "trace (set_wait_irq s a v w) = trace w"
  "stores (set_wait_irq s a v w) =
     stores w @ [\<lparr>st_site = s, st_dev = a, st_val = v, st_guard = spinlock (mem w a)\<rparr>]"
  by (simp_all add: set_wait_irq_def)

lemma inb_fields [simp]:
  "mem (snd (inb env p w)) = mem w"
  "devices (snd (inb env p w)) = devices w"
  "devices_cache (snd (inb env p w)) = devices_cache w"
  "trace (snd (inb env p w)) = trace w @ [Inb p (fst (inb env p w))]"
  "stores (snd (inb env p w)) = stores w"
  by (simp_all add: inb_def split: prod.split)

lemma inw_fields [simp]:
  "mem (snd (inw env p w)) = mem w"
  "devices (snd (inw env p w)) = devices w"
  "devices_cache (snd (inw env p w)) = devices_cache w"
  "trace (snd (inw env p w)) = trace w @ [Inw p (fst (inw env p w))]"
  "stores (snd (inw env p w)) = stores w"
  by (simp_all add: inw_def split: prod.split)

lemma outb_fields [simp]:
  "mem (outb env p v w) = mem w"
  "devices (outb env p v w) = devices w"
  "devices_cache (outb env p v w) = devices_cache w"
  "trace (outb env p v w) = trace w @ [Outb p v]"
  "stores (outb env p v w) = stores w"
  by (simp_all add: outb_def)

lemma outw_fields [simp]:
  "mem (outw env p v w) = mem w"
  "devices (outw env p v w) = devices w"
  "devices_cache (outw env p v w) = devices_cache w"
  "trace (outw env p v w) = trace w @ [Outw p v]"
  "stores (outw env p v w) = stores w"
  by (simp_all add: outw_def)

lemma spin_lock_fields [simp]:
  "mem (spin_lock a w) = (mem w)(a := (mem w a)\<lparr>spinlock := True\<rparr>)"
  "hw (spin_lock a w) = hw w"
  "devices (spin_lock a w) = devices w"
  "devices_cache (spin_lock a w) = devices_cache w"
  "trace (spin_lock a w) = trace w @ [SpinLock a]"
  "stores (spin_lock a w) = stores w"
  by (simp_all add: spin_lock_def)

lemma spin_unlock_fields [simp]:
  "mem (spin_unlock a w) = (mem w)(a := (mem w a)\<lparr>spinlock := False\<rparr>)"
  "hw (spin_unlock a w) = hw w"
  "devices (spin_unlock a w) = devices w"
  "devices_cache (spin_unlock a w) = devices_cache w"
  "trace (spin_unlock a w) = trace w @ [SpinUnlock a]"
  "stores (spin_unlock a w) = stores w"
  by (simp_all add: spin_unlock_def)

lemma ata_command_fields [simp]:
  "mem (ata_command env b c w) = mem w"
  "devices (ata_command env b c w) = devices w"
  "devices_cache (ata_command env b c w) = devices_cache w"
  "trace (ata_command env b c w) = trace w @ [Outb (b + ATA_REG_COMMAND) c]"
  "stores (ata_command env b c w) = stores w"
  by (simp_all add: ata_command_def)

lemma ata_setup_fields:
  "mem (ata_setup env d slave lba sectors cmd w) = (mem w)(d := (mem w d)\<lparr>spinlock := True\<rparr>)"
  "devices (ata_setup env d slave lba sectors cmd w) = devices w"
  "devices_cache (ata_setup env d slave lba sectors cmd w) = devices_cache w"
  "trace (ata_setup env d slave lba sectors cmd w) =
     trace w @ setup_events d (bus (mem w d)) slave lba sectors cmd"
  "stores (ata_setup env d slave lba sectors cmd w) = stores w"
  by (simp_all add: ata_setup_def setup_events_def Let_def unsigned_or_eq)

lemma ata_read_setup:
  "sectors \<le> 0xff \<Longrightarrow>
   ata_read env (Some d) slave lba (Some b) sectors w =
     (case ata_read_loop env d 0 (unat sectors) b 0
             (ata_setup env d slave lba sectors ATA_CMD_READ_SECTORS w) of
        None \<Rightarrow> None
      | Some (Some r, b1, pos, w8) \<Rightarrow> Some (r, Some b1, w8)
      | Some (None, b1, pos, w8) \<Rightarrow> Some (0, Some b1, spin_unlock d w8))"
  by (simp add: ata_read_def ata_setup_def Let_def not_less [symmetric])

lemma ata_write_setup:
  "sectors \<le> 0xff \<Longrightarrow>
   ata_write env (Some d) slave lba (Some b) sectors w =
     (case ata_write_loop env d 0 (unat sectors) b 0
             (ata_setup env d slave lba sectors ATA_CMD_WRITE_SECTORS w) of
        None \<Rightarrow> None
      | Some (Some r, pos, w8) \<Rightarrow> Some (r, w8)
      | Some (None, pos, w8) \<Rightarrow>
          Some (0, spin_unlock d (ata_command env (bus (mem w8 d)) ATA_CMD_CACHE_FLUSH w8)))"
  by (simp add: ata_write_def ata_setup_def Let_def not_less [symmetric])

section \<open>Steps that only poll\<close>

lemmas ata_err_check_loop_induct =
  ata_err_check_loop.raw_induct [rotated 1, consumes 1, case_names step]

lemmas ata_wait_ready_loop_induct =
  ata_wait_ready_loop.raw_induct [rotated 1, consumes 1, case_names step]

lemma quiet_refl [simp]: "quiet w w"
  by (simp add: quiet_def data_ins_def data_outs_def)

lemma quiet_trans: "quiet w1 w2 \<Longrightarrow> quiet w2 w3 \<Longrightarrow> quiet w1 w3"
proof -
  assume a: "quiet w1 w2" and b: "quiet w2 w3"
  from a obtain r1 where r1: "trace w2 = trace w1 @ r1" "data_ins r1 = 0" "data_outs r1 = 0"
    unfolding quiet_def by blast
  from b obtain r2 where r2: "trace w3 = trace w2 @ r2" "data_ins r2 = 0" "data_outs r2 = 0"
    unfolding quiet_def by blast
  have "trace w3 = trace w1 @ (r1 @ r2) \<and> data_ins (r1 @ r2) = 0 \<and> data_outs (r1 @ r2) = 0"
    using r1 r2 by (simp add: data_ins_def data_outs_def)
  then have "\<exists>rest. trace w3 = trace w1 @ rest \<and> data_ins rest = 0 \<and> data_outs rest = 0"
    by blast
  with a b show ?thesis
    unfolding quiet_def by simp
qed

lemma quiet_inb: "quiet w (snd (inb env p w))"
  by (simp add: quiet_def data_ins_def data_outs_def)

lemma quiet_outb: "quiet w (outb env p v w)"
  by (simp add: quiet_def data_ins_def data_outs_def)

lemma ata_has_err_snd: "snd (ata_has_err env d w) = snd (inb env (bus (mem w d) + ATA_REG_STATUS) w)"
  by (simp add: ata_has_err_def split: prod.split)

lemma ata_is_ready_snd: "snd (ata_is_ready env b w) = snd (inb env (b + ATA_REG_STATUS) w)"
  by (simp add: ata_is_ready_def split: prod.split)

lemma quiet_irq: "ata_irq w = Inr w' \<Longrightarrow> quiet w w'"
  by (auto simp: ata_irq_def quiet_def data_ins_def data_outs_def split: option.splits if_splits)

lemma quiet_err_body: "quiet w (ata_err_check_body env a w)"
proof -
  have q: "quiet w (snd (ata_has_err env a w))"
    by (simp add: ata_has_err_snd quiet_inb)
  show ?thesis
  proof (cases "wait_irq (mem w a) \<noteq> 0 \<and> fst (ata_has_err env a w) \<noteq> 0")
    case False
    then show ?thesis using q
      by (auto simp: ata_err_check_body_def split: prod.splits)
  next
    case True
    have "quiet (snd (ata_has_err env a w))
            (set_wait_irq In_ata_err_check a 0 (snd (ata_has_err env a w)))"
      by (simp add: quiet_def data_ins_def data_outs_def)
    from quiet_trans [OF q this] True show ?thesis
      by (auto simp: ata_err_check_body_def split: prod.splits)
  qed
qed

lemma quiet_err_loop: "ata_err_check_loop env d w = Some w' \<Longrightarrow> quiet w w'"
proof (induction env d w w' rule: ata_err_check_loop_induct)
  case (step loop env d w w')
  show ?case
  proof (cases d)
    case None
    with step(2) show ?thesis by simp
  next
    case (Some a)
    with step(2) have "loop env (dev_next (mem (ata_err_check_body env a w) a)) (ata_err_check_body env a w) = Some w'"
      by (simp add: Let_def)
    from step(1) [OF this] quiet_err_body [of w env a] show ?thesis
      by (rule quiet_trans [rotated])
  qed
qed

lemma quiet_run_hooks: "run_hooks env hs w = Some w' \<Longrightarrow> quiet w w'"
proof (induction hs arbitrary: w)
  case Nil
  then show ?case by simp
next
  case (Cons h hs)
  show ?case
  proof (cases h)
    case Irq
    with Cons.prems obtain w1 where a: "ata_irq w = Inr w1" and b: "run_hooks env hs w1 = Some w'"
      by (auto split: sum.splits)
    from quiet_irq [OF a] Cons.IH [OF b] show ?thesis by (rule quiet_trans)
  next
    case ErrCheck
    with Cons.prems obtain w1 where a: "ata_err_check env w = Some w1" and b: "run_hooks env hs w1 = Some w'"
      by (auto split: option.splits)
    from quiet_err_loop [OF a [unfolded ata_err_check_def]] Cons.IH [OF b] show ?thesis by (rule quiet_trans)
  qed
qed

lemma quiet_kernel_wait: "kernel_wait env w = Some w' \<Longrightarrow> quiet w w'"
proof -
  assume a: "kernel_wait env w = Some w'"
  obtain hs h where k: "kernel_wait_f env (hw w) = (hs, h)" by (cases "kernel_wait_f env (hw w)")
  have "quiet w (w\<lparr>hw := h, trace := trace w @ [KernelWait]\<rparr>)"
    by (simp add: quiet_def data_ins_def data_outs_def)
  moreover from a k have "run_hooks env hs (w\<lparr>hw := h, trace := trace w @ [KernelWait]\<rparr>) = Some w'"
    by (simp add: kernel_wait_def)
  ultimately show ?thesis by (blast intro: quiet_trans quiet_run_hooks)
qed

lemma quiet_wait_loop: "ata_wait_ready_loop env d w = Some w' \<Longrightarrow> quiet w w'"
proof (induction env d w w' rule: ata_wait_ready_loop_induct)
  case (step loop env d w w')
  show ?case
  proof (cases "wait_irq (mem w d) \<noteq> 0")
    case False
    with step(2) show ?thesis by simp
  next
    case True
    let ?w1 = "snd (ata_is_ready env (bus (mem w d)) w)"
    have q1: "quiet w ?w1" by (simp add: ata_is_ready_snd quiet_inb)
    show ?thesis
    proof (cases "fst (ata_is_ready env (bus (mem w d)) w) = 0")
      case False
      with True step(2) have "w' = ?w1" by (auto split: prod.splits)
      with q1 show ?thesis by simp
    next
      case z: True
      with True step(2) obtain w2 where k: "kernel_wait env ?w1 = Some w2" and l: "loop env d w2 = Some w'"
        by (auto split: prod.splits option.splits)
      from q1 quiet_kernel_wait [OF k] step(1) [OF l] show ?thesis
        by (blast intro: quiet_trans)
    qed
  qed
qed

lemma steady_refl [simp]: "steady w w"
  by (simp add: steady_def)

lemma steady_trans: "steady w1 w2 \<Longrightarrow> steady w2 w3 \<Longrightarrow> steady w1 w3"
proof -
  assume a: "steady w1 w2" and b: "steady w2 w3"
  from a obtain r1 where r1: "trace w2 = trace w1 @ r1"
    unfolding steady_def by blast
  from b obtain r2 where r2: "trace w3 = trace w2 @ r2"
    unfolding steady_def by blast
  have "trace w3 = trace w1 @ (r1 @ r2)"
    using r1 r2 by simp
  then have "\<exists>rest. trace w3 = trace w1 @ rest"
    by blast
  with a b show ?thesis
    unfolding steady_def by simp
qed

lemma quiet_steady: "quiet w w' \<Longrightarrow> steady w w'"
  unfolding quiet_def steady_def by blast

lemma quiet_data_ins: "quiet w w' \<Longrightarrow> data_ins (trace w') = data_ins (trace w)"
  unfolding quiet_def by (auto simp: data_ins_def)

lemma quiet_data_outs: "quiet w w' \<Longrightarrow> data_outs (trace w') = data_outs (trace w)"
  unfolding quiet_def by (auto simp: data_outs_def)

lemma quiet_bus: "quiet w w' \<Longrightarrow> bus (mem w' a) = bus (mem w a)"
  unfolding quiet_def by blast

lemma quiet_spinlock: "quiet w w' \<Longrightarrow> spinlock (mem w' a) = spinlock (mem w a)"
  unfolding quiet_def by blast

lemma steady_bus: "steady w w' \<Longrightarrow> bus (mem w' a) = bus (mem w a)"
  unfolding steady_def by blast

lemma steady_spinlock: "steady w w' \<Longrightarrow> spinlock (mem w' a) = spinlock (mem w a)"
  unfolding steady_def by blast

lemma steady_trace: "steady w w' \<Longrightarrow> \<exists>rest. trace w' = trace w @ rest"
  unfolding steady_def by blast

lemma quiet_has_err: "quiet w (snd (ata_has_err env d w))"
  by (simp add: ata_has_err_snd quiet_inb)

lemma quiet_wait_ready: "ata_wait_ready env d w = Some w' \<Longrightarrow> quiet w w'"
proof -
  assume a: "ata_wait_ready env d w = Some w'"
  let ?w0 = "set_wait_irq In_ata_wait_ready d 1 w"
  from a obtain w1 where l: "ata_wait_ready_loop env d ?w0 = Some w1"
    and w': "w' = set_wait_irq In_ata_wait_ready d 0 w1"
    by (auto simp: ata_wait_ready_def split: option.splits)
  have "quiet w ?w0" by (simp add: quiet_def data_ins_def data_outs_def)
  moreover note quiet_wait_loop [OF l]
  moreover have "quiet w1 w'" unfolding w' by (simp add: quiet_def data_ins_def data_outs_def)
  ultimately show ?thesis by (blast intro: quiet_trans)
qed

lemma ata_read_words_steady:
  "ata_read_words env d j b p w = Some (b', p', w') \<Longrightarrow> j \<le> 256 \<Longrightarrow>
     steady w w' \<and> mem w' = mem w \<and> p' = p + (256 - j) \<and> length b' = length b \<and>
     (p \<le> length b \<longrightarrow> p' \<le> length b) \<and> drop p' b' = drop p' b \<and> take p b' = take p b \<and>
     data_ins (trace w') = data_ins (trace w) + (256 - j) \<and>
     data_outs (trace w') = data_outs (trace w)"
proof (induction env d j b p w rule: ata_read_words.induct)
  case (1 env d j b p w)
  show ?case
  proof (cases "j < 256")
    case False
    with 1(2,3) show ?thesis by (simp add: ata_read_words.simps [of env d j])
  next
    case True
    let ?r = "inw env (bus (mem w d) + ATA_REG_DATA) w"
    from True 1(2) have pl: "p < length b"
      and rec: "ata_read_words env d (j + 1) (b[p := fst ?r]) (p + 1) (snd ?r) = Some (b', p', w')"
      by (auto simp: ata_read_words.simps [of env d j] split: prod.splits if_splits)
    from True have j1: "j + 1 \<le> 256" by simp
    note ih = "1.IH" [OF True prod.collapse pl rec j1]
    from ih have p': "p' = p + 1 + (256 - (j + 1))" by simp
    with True have pp: "p < p'" by simp
    from ih have "drop p' b' = drop p' (b[p := fst ?r])" by blast
    with pp have dr: "drop p' b' = drop p' b" by simp
    have s0: "steady w (snd ?r)" by (simp add: steady_def)
    have tk: "take p b' = take p b"
    proof -
      from ih have "take p (take (p + 1) b') = take p (take (p + 1) (b[p := fst ?r]))" by simp
      then show ?thesis by (simp add: min_def)
    qed
    from ih have "steady (snd ?r) w'" by blast
    with s0 have st: "steady w w'" by (rule steady_trans)
    from ih True have cnt: "data_ins (trace w') = data_ins (trace w) + (256 - j)"
      "data_outs (trace w') = data_outs (trace w)"
      by (simp_all add: data_ins_def data_outs_def)
    from ih have "mem w' = mem w" "length b' = length b" "p \<le> length b \<longrightarrow> p' \<le> length b"
      using pl by simp_all
    with st cnt tk dr p' True show ?thesis
      by simp
  qed
qed

lemma ata_write_words_steady:
  "ata_write_words env d j b p w = Some (p', w') \<Longrightarrow> j \<le> 256 \<Longrightarrow>
     steady w w' \<and> mem w' = mem w \<and> p' = p + (256 - j) \<and>
     (p \<le> length b \<longrightarrow> p' \<le> length b) \<and>
     data_outs (trace w') = data_outs (trace w) + (256 - j) \<and>
     data_ins (trace w') = data_ins (trace w)"
proof (induction env d j b p w rule: ata_write_words.induct)
  case (1 env d j b p w)
  show ?case
  proof (cases "j < 256")
    case False
    with 1(2,3) show ?thesis by (simp add: ata_write_words.simps [of env d j])
  next
    case True
    let ?w1 = "outw env (bus (mem w d) + ATA_REG_DATA) (b ! p) w"
    from True 1(2) have pl: "p < length b"
      and rec: "ata_write_words env d (j + 1) b (p + 1) ?w1 = Some (p', w')"
      by (auto simp: ata_write_words.simps [of env d j] split: if_splits)
    from True have j1: "j + 1 \<le> 256" by simp
    note ih = "1.IH" [OF True pl rec j1]
    have s0: "steady w ?w1" by (simp add: steady_def)
    from ih have "steady ?w1 w'" by blast
    with s0 have st: "steady w w'" by (rule steady_trans)
    from ih True have cnt: "data_outs (trace w') = data_outs (trace w) + (256 - j)"
      "data_ins (trace w') = data_ins (trace w)"
      by (simp_all add: data_ins_def data_outs_def)
    from ih have "mem w' = mem w" "p' = p + 1 + (256 - (j + 1))" "p \<le> length b \<longrightarrow> p' \<le> length b"
      using pl by simp_all
    with st cnt True show ?thesis
      by simp
  qed
qed

section \<open>The sector loops\<close>

lemma ata_read_loop_done:
  "\<not> i < n \<Longrightarrow> ata_read_loop env d i n b p w = Some (None, b, p, w)"
  by (simp add: ata_read_loop.simps [of env d i])

lemma ata_read_loop_step:
  "i < n \<Longrightarrow>
   ata_read_loop env d i n b p w =
     (case ata_wait_ready env d w of
        None \<Rightarrow> None
      | Some w1 \<Rightarrow>
          (case ata_has_err env d w1 of
             (e, w2) \<Rightarrow>
               if e \<noteq> 0 then Some (Some (- 1), b, p, spin_unlock d w2)
               else
                 (case ata_read_words env d 0 b p w2 of
                    None \<Rightarrow> None
                  | Some (b1, p1, w3) \<Rightarrow> ata_read_loop env d (i + 1) n b1 p1 w3)))"
  by (subst ata_read_loop.simps) (simp add: not_le [symmetric] split: option.split prod.split)

lemma ata_write_loop_done:
  "\<not> i < n \<Longrightarrow> ata_write_loop env d i n b p w = Some (None, p, w)"
  by (simp add: ata_write_loop.simps [of env d i])

lemma ata_write_loop_step:
  "i < n \<Longrightarrow>
   ata_write_loop env d i n b p w =
     (case ata_wait_ready env d w of
        None \<Rightarrow> None
      | Some w1 \<Rightarrow>
          (case ata_has_err env d w1 of
             (e, w2) \<Rightarrow>
               if e \<noteq> 0 then Some (Some (- 1), p, spin_unlock d w2)
               else
                 (case ata_write_words env d 0 b p w2 of
                    None \<Rightarrow> None
                  | Some (p1, w3) \<Rightarrow> ata_write_loop env d (i + 1) n b p1 w3)))"
  by (subst ata_write_loop.simps) simp

text \<open>One sector of the read loop that passes its check.\<close>

lemma ata_read_loop_sector:
  assumes "i < n" and "ata_read_loop env d i n b p w = Some (None, bk, pk, wk)"
  obtains w1 b1 p1 w3 where
    "ata_wait_ready env d w = Some w1"
    "fst (ata_has_err env d w1) = 0"
    "ata_read_words env d 0 b p (snd (ata_has_err env d w1)) = Some (b1, p1, w3)"
    "ata_read_loop env d (i + 1) n b1 p1 w3 = Some (None, bk, pk, wk)"
proof -
  from assms obtain w1 where a: "ata_wait_ready env d w = Some w1"
    by (auto simp: ata_read_loop_step split: option.splits)
  obtain e w2 where E: "ata_has_err env d w1 = (e, w2)" by (cases "ata_has_err env d w1")
  from assms a E have e0: "e = 0"
    by (auto simp: ata_read_loop_step split: if_splits)
  from assms a E e0 obtain b1 p1 w3 where
    R: "ata_read_words env d 0 b p w2 = Some (b1, p1, w3)"
    by (auto simp: ata_read_loop_step split: option.splits)
  from assms a E e0 R have "ata_read_loop env d (i + 1) n b1 p1 w3 = Some (None, bk, pk, wk)"
    by (simp add: ata_read_loop_step)
  with a E e0 R that show thesis by simp
qed

lemma ata_write_loop_sector:
  assumes "i < n" and "ata_write_loop env d i n b p w = Some (None, pk, wk)"
  obtains w1 p1 w3 where
    "ata_wait_ready env d w = Some w1"
    "fst (ata_has_err env d w1) = 0"
    "ata_write_words env d 0 b p (snd (ata_has_err env d w1)) = Some (p1, w3)"
    "ata_write_loop env d (i + 1) n b p1 w3 = Some (None, pk, wk)"
proof -
  from assms obtain w1 where a: "ata_wait_ready env d w = Some w1"
    by (auto simp: ata_write_loop_step split: option.splits)
  obtain e w2 where E: "ata_has_err env d w1 = (e, w2)" by (cases "ata_has_err env d w1")
  from assms a E have e0: "e = 0"
    by (auto simp: ata_write_loop_step split: if_splits)
  from assms a E e0 obtain p1 w3 where
    R: "ata_write_words env d 0 b p w2 = Some (p1, w3)"
    by (auto simp: ata_write_loop_step split: option.splits)
  from assms a E e0 R have "ata_write_loop env d (i + 1) n b p1 w3 = Some (None, pk, wk)"
    by (simp add: ata_write_loop_step)
  with a E e0 R that show thesis by simp
qed

lemma ata_read_loop_ok:
  "ata_read_loop env d i k b p w = Some (None, bk, pk, wk) \<Longrightarrow> i \<le> k \<Longrightarrow>
     steady w wk \<and> pk = p + 256 * (k - i) \<and> length bk = length b \<and>
     drop pk bk = drop pk b \<and> take p bk = take p b \<and>
     data_ins (trace wk) = data_ins (trace w) + 256 * (k - i) \<and>
     data_outs (trace wk) = data_outs (trace w)"
proof (induction "k - i" arbitrary: i b p w)
  case 0
  then have "\<not> i < k" by simp
  with 0 show ?case by (simp add: ata_read_loop_done)
next
  case (Suc m)
  then have lt: "i < k" by simp
  from ata_read_loop_sector [OF lt Suc.prems(1)] obtain w1 b1 p1 w3 where
    a: "ata_wait_ready env d w = Some w1" and
    e: "fst (ata_has_err env d w1) = 0" and
    r: "ata_read_words env d 0 b p (snd (ata_has_err env d w1)) = Some (b1, p1, w3)" and
    l: "ata_read_loop env d (i + 1) k b1 p1 w3 = Some (None, bk, pk, wk)"
    by blast
  let ?w2 = "snd (ata_has_err env d w1)"
  have q: "quiet w ?w2"
    using quiet_wait_ready [OF a] quiet_has_err [of w1 env d] by (rule quiet_trans)
  have z: "(0::nat) \<le> 256" by simp
  from ata_read_words_steady [OF r z] have rw0:
    "steady ?w2 w3" "p1 = p + (256 - 0)" "length b1 = length b" "drop p1 b1 = drop p1 b"
    "take p b1 = take p b" "data_ins (trace w3) = data_ins (trace ?w2) + (256 - 0)"
    "data_outs (trace w3) = data_outs (trace ?w2)"
    by blast+
  then have rw:
    "steady ?w2 w3" "p1 = p + 256" "length b1 = length b" "drop p1 b1 = drop p1 b"
    "take p b1 = take p b" "data_ins (trace w3) = data_ins (trace ?w2) + 256"
    "data_outs (trace w3) = data_outs (trace ?w2)"
    by simp_all
  from Suc.hyps(2) lt have m: "m = k - (i + 1)" and le: "i + 1 \<le> k" by simp_all
  from Suc.hyps(1) [OF m l le] have ih:
    "steady w3 wk" "pk = p1 + 256 * (k - (i + 1))" "length bk = length b1"
    "drop pk bk = drop pk b1" "take p1 bk = take p1 b1"
    "data_ins (trace wk) = data_ins (trace w3) + 256 * (k - (i + 1))"
    "data_outs (trace wk) = data_outs (trace w3)"
    by blast+
  have st: "steady w wk"
    using quiet_steady [OF q] rw(1) ih(1) by (blast intro: steady_trans)
  have pk: "pk = p + 256 * (k - i)"
    using ih(2) rw(2) lt by simp
  have dr: "drop pk bk = drop pk b"
  proof -
    have "p1 \<le> pk" using ih(2) by simp
    then obtain c where c: "pk = c + p1" by (metis le_add_diff_inverse2)
    have "drop pk b1 = drop c (drop p1 b1)" by (simp add: c)
    also have "\<dots> = drop c (drop p1 b)" by (simp add: rw(4))
    also have "\<dots> = drop pk b" by (simp add: c)
    finally show ?thesis using ih(4) by simp
  qed
  have tk: "take p bk = take p b"
  proof -
    have "take p bk = take p (take p1 bk)" by (simp add: rw(2) min_def)
    also have "\<dots> = take p (take p1 b1)" by (simp add: ih(5))
    also have "\<dots> = take p b1" by (simp add: rw(2) min_def)
    finally show ?thesis by (simp add: rw(5))
  qed
  have di: "data_ins (trace wk) = data_ins (trace w) + 256 * (k - i)"
    using ih(6) rw(6) quiet_data_ins [OF q] lt by simp
  have do': "data_outs (trace wk) = data_outs (trace w)"
    using ih(7) rw(7) quiet_data_outs [OF q] by simp
  from st pk dr tk di do' ih(3) rw(3) show ?case by simp
qed

lemma ata_write_loop_ok:
  "ata_write_loop env d i k b p w = Some (None, pk, wk) \<Longrightarrow> i \<le> k \<Longrightarrow>
     steady w wk \<and> pk = p + 256 * (k - i) \<and>
     data_outs (trace wk) = data_outs (trace w) + 256 * (k - i) \<and>
     data_ins (trace wk) = data_ins (trace w)"
proof (induction "k - i" arbitrary: i p w)
  case 0
  then have "\<not> i < k" by simp
  with 0 show ?case by (simp add: ata_write_loop_done)
next
  case (Suc m)
  then have lt: "i < k" by simp
  from ata_write_loop_sector [OF lt Suc.prems(1)] obtain w1 p1 w3 where
    a: "ata_wait_ready env d w = Some w1" and
    e: "fst (ata_has_err env d w1) = 0" and
    r: "ata_write_words env d 0 b p (snd (ata_has_err env d w1)) = Some (p1, w3)" and
    l: "ata_write_loop env d (i + 1) k b p1 w3 = Some (None, pk, wk)"
    by blast
  let ?w2 = "snd (ata_has_err env d w1)"
  have q: "quiet w ?w2"
    using quiet_wait_ready [OF a] quiet_has_err [of w1 env d] by (rule quiet_trans)
  have z: "(0::nat) \<le> 256" by simp
  from ata_write_words_steady [OF r z] have rw0:
    "steady ?w2 w3" "p1 = p + (256 - 0)"
    "data_outs (trace w3) = data_outs (trace ?w2) + (256 - 0)"
    "data_ins (trace w3) = data_ins (trace ?w2)"
    by blast+
  then have rw:
    "steady ?w2 w3" "p1 = p + 256" "data_outs (trace w3) = data_outs (trace ?w2) + 256"
    "data_ins (trace w3) = data_ins (trace ?w2)"
    by simp_all
  from Suc.hyps(2) lt have m: "m = k - (i + 1)" and le: "i + 1 \<le> k" by simp_all
  from Suc.hyps(1) [OF m l le] have ih:
    "steady w3 wk" "pk = p1 + 256 * (k - (i + 1))"
    "data_outs (trace wk) = data_outs (trace w3) + 256 * (k - (i + 1))"
    "data_ins (trace wk) = data_ins (trace w3)"
    by blast+
  have st: "steady w wk"
    using quiet_steady [OF q] rw(1) ih(1) by (blast intro: steady_trans)
  have pk: "pk = p + 256 * (k - i)"
    using ih(2) rw(2) lt by simp
  have di: "data_outs (trace wk) = data_outs (trace w) + 256 * (k - i)"
    using ih(3) rw(3) quiet_data_outs [OF q] lt by simp
  have do': "data_ins (trace wk) = data_ins (trace w)"
    using ih(4) rw(4) quiet_data_ins [OF q] by simp
  from st pk di do' show ?case by simp
qed

lemma ata_read_loop_extend:
  "ata_read_loop env d i k b p w = Some (None, bk, pk, wk) \<Longrightarrow> i \<le> k \<Longrightarrow> k \<le> n \<Longrightarrow>
     ata_read_loop env d i n b p w = ata_read_loop env d k n bk pk wk"
proof (induction "k - i" arbitrary: i b p w)
  case 0
  then have "\<not> i < k" and "i = k" by simp_all
  with 0 show ?case by (simp add: ata_read_loop_done)
next
  case (Suc m)
  then have lt: "i < k" by simp
  from ata_read_loop_sector [OF lt Suc.prems(1)] obtain w1 b1 p1 w3 where
    a: "ata_wait_ready env d w = Some w1" and
    e: "fst (ata_has_err env d w1) = 0" and
    r: "ata_read_words env d 0 b p (snd (ata_has_err env d w1)) = Some (b1, p1, w3)" and
    l: "ata_read_loop env d (i + 1) k b1 p1 w3 = Some (None, bk, pk, wk)"
    by blast
  from Suc.hyps(2) lt have m: "m = k - (i + 1)" and le: "i + 1 \<le> k" by simp_all
  note ih = Suc.hyps(1) [OF m l le Suc.prems(3)]
  from lt Suc.prems(3) have "i < n" by simp
  moreover obtain e2 w2 where E: "ata_has_err env d w1 = (e2, w2)"
    by (cases "ata_has_err env d w1")
  ultimately have "ata_read_loop env d i n b p w = ata_read_loop env d (i + 1) n b1 p1 w3"
    using a e r by (simp add: ata_read_loop_step)
  with ih show ?case by simp
qed

lemma ata_write_loop_extend:
  "ata_write_loop env d i k b p w = Some (None, pk, wk) \<Longrightarrow> i \<le> k \<Longrightarrow> k \<le> n \<Longrightarrow>
     ata_write_loop env d i n b p w = ata_write_loop env d k n b pk wk"
proof (induction "k - i" arbitrary: i p w)
  case 0
  then have "\<not> i < k" and "i = k" by simp_all
  with 0 show ?case by (simp add: ata_write_loop_done)
next
  case (Suc m)
  then have lt: "i < k" by simp
  from ata_write_loop_sector [OF lt Suc.prems(1)] obtain w1 p1 w3 where
    a: "ata_wait_ready env d w = Some w1" and
    e: "fst (ata_has_err env d w1) = 0" and
    r: "ata_write_words env d 0 b p (snd (ata_has_err env d w1)) = Some (p1, w3)" and
    l: "ata_write_loop env d (i + 1) k b p1 w3 = Some (None, pk, wk)"
    by blast
  from Suc.hyps(2) lt have m: "m = k - (i + 1)" and le: "i + 1 \<le> k" by simp_all
  note ih = Suc.hyps(1) [OF m l le Suc.prems(3)]
  from lt Suc.prems(3) have "i < n" by simp
  moreover obtain e2 w2 where E: "ata_has_err env d w1 = (e2, w2)"
    by (cases "ata_has_err env d w1")
  ultimately have "ata_write_loop env d i n b p w = ata_write_loop env d (i + 1) n b p1 w3"
    using a e r by (simp add: ata_write_loop_step)
  with ih show ?case by simp
qed

lemma ata_read_loop_trace:
  "ata_read_loop env d i n b p w = Some (r, b', p', w') \<Longrightarrow> \<exists>rest. trace w' = trace w @ rest"
proof (induction "n - i" arbitrary: i b p w)
  case 0
  then have "\<not> i < n" by simp
  with 0 show ?case by (simp add: ata_read_loop_done)
next
  case (Suc m)
  then have lt: "i < n" by simp
  from Suc.prems lt obtain w1 where a: "ata_wait_ready env d w = Some w1"
    by (auto simp: ata_read_loop_step split: option.splits)
  obtain e w2 where E: "ata_has_err env d w1 = (e, w2)" by (cases "ata_has_err env d w1")
  have q: "quiet w w2"
    using quiet_wait_ready [OF a] quiet_has_err [of w1 env d] E by (auto intro: quiet_trans)
  then obtain r1 where r1: "trace w2 = trace w @ r1" unfolding quiet_def by blast
  show ?case
  proof (cases "e \<noteq> 0")
    case True
    with Suc.prems lt a E have "w' = spin_unlock d w2" by (simp add: ata_read_loop_step)
    with r1 show ?thesis by simp
  next
    case False
    with Suc.prems lt a E obtain b1 p1 w3 where
      R: "ata_read_words env d 0 b p w2 = Some (b1, p1, w3)"
      by (auto simp: ata_read_loop_step split: option.splits)
    with Suc.prems lt a E False have l: "ata_read_loop env d (i + 1) n b1 p1 w3 = Some (r, b', p', w')"
      by (simp add: ata_read_loop_step)
    have z: "(0::nat) \<le> 256" by simp
    from ata_read_words_steady [OF R z] have "steady w2 w3" by blast
    then obtain r2 where r2: "trace w3 = trace w2 @ r2" unfolding steady_def by blast
    from Suc.hyps(2) lt have m: "m = n - (i + 1)" by simp
    from Suc.hyps(1) [OF m l] obtain r3 where "trace w' = trace w3 @ r3" by blast
    with r1 r2 show ?thesis by simp
  qed
qed

lemma ata_write_loop_trace:
  "ata_write_loop env d i n b p w = Some (r, p', w') \<Longrightarrow> \<exists>rest. trace w' = trace w @ rest"
proof (induction "n - i" arbitrary: i p w)
  case 0
  then have "\<not> i < n" by simp
  with 0 show ?case by (simp add: ata_write_loop_done)
next
  case (Suc m)
  then have lt: "i < n" by simp
  from Suc.prems lt obtain w1 where a: "ata_wait_ready env d w = Some w1"
    by (auto simp: ata_write_loop_step split: option.splits)
  obtain e w2 where E: "ata_has_err env d w1 = (e, w2)" by (cases "ata_has_err env d w1")
  have q: "quiet w w2"
    using quiet_wait_ready [OF a] quiet_has_err [of w1 env d] E by (auto intro: quiet_trans)
  then obtain r1 where r1: "trace w2 = trace w @ r1" unfolding quiet_def by blast
  show ?case
  proof (cases "e \<noteq> 0")
    case True
    with Suc.prems lt a E have "w' = spin_unlock d w2" by (simp add: ata_write_loop_step)
    with r1 show ?thesis by simp
  next
    case False
    with Suc.prems lt a E obtain p1 w3 where
      R: "ata_write_words env d 0 b p w2 = Some (p1, w3)"
      by (auto simp: ata_write_loop_step split: option.splits)
    with Suc.prems lt a E False have l: "ata_write_loop env d (i + 1) n b p1 w3 = Some (r, p', w')"
      by (simp add: ata_write_loop_step)
    have z: "(0::nat) \<le> 256" by simp
    from ata_write_words_steady [OF R z] have "steady w2 w3" by blast
    then obtain r2 where r2: "trace w3 = trace w2 @ r2" unfolding steady_def by blast
    from Suc.hyps(2) lt have m: "m = n - (i + 1)" by simp
    from Suc.hyps(1) [OF m l] obtain r3 where "trace w' = trace w3 @ r3" by blast
    with r1 r2 show ?thesis by simp
  qed
qed

lemma ata_read_trace:
  assumes "sectors \<le> 0xff"
    and "ata_read env (Some d) slave lba (Some b) sectors w = Some (r, b', w')"
  shows "\<exists>rest. trace w' =
     trace w @ setup_events d (bus (mem w d)) slave lba sectors ATA_CMD_READ_SECTORS @ rest"
proof -
  let ?w0 = "ata_setup env d slave lba sectors ATA_CMD_READ_SECTORS w"
  from assms obtain r1 b1 p1 w1 where
    l: "ata_read_loop env d 0 (unat sectors) b 0 ?w0 = Some (r1, b1, p1, w1)"
    and w': "w' = w1 \<or> w' = spin_unlock d w1"
    by (auto simp: ata_read_setup split: option.splits)
  from ata_read_loop_trace [OF l] obtain rest where "trace w1 = trace ?w0 @ rest" by blast
  with w' show ?thesis
    by (auto simp: ata_setup_fields)
qed

lemma ata_write_trace:
  assumes "sectors \<le> 0xff"
    and "ata_write env (Some d) slave lba (Some b) sectors w = Some (r, w')"
  shows "\<exists>rest. trace w' =
     trace w @ setup_events d (bus (mem w d)) slave lba sectors ATA_CMD_WRITE_SECTORS @ rest"
proof -
  let ?w0 = "ata_setup env d slave lba sectors ATA_CMD_WRITE_SECTORS w"
  from assms obtain r1 p1 w1 where
    l: "ata_write_loop env d 0 (unat sectors) b 0 ?w0 = Some (r1, p1, w1)"
    and w': "w' = w1 \<or> w' = spin_unlock d (ata_command env (bus (mem w1 d)) ATA_CMD_CACHE_FLUSH w1)"
    by (auto simp: ata_write_setup split: option.splits)
  from ata_write_loop_trace [OF l] obtain rest where "trace w1 = trace ?w0 @ rest" by blast
  with w' show ?thesis
    by (auto simp: ata_setup_fields)
qed

section \<open>The driver on the disk double\<close>

lemma words_out_append [simp]: "words_out (xs @ ys) = words_out xs @ words_out ys"
  by (induction xs rule: words_out.induct) simp_all

lemma words_in_append [simp]: "words_in (xs @ ys) = words_in xs @ words_in ys"
  by (induction xs rule: words_in.induct) simp_all

lemma sim_env_fields [simp]:
  "inb_f (sim_env base) = sim_inb base"
  "inw_f (sim_env base) = sim_inw base"
  "outb_f (sim_env base) = sim_outb base"
  "outw_f (sim_env base) = sim_outw base"
  "kernel_wait_f (sim_env base) = (\<lambda>h. ([], h))"
  by (simp_all add: sim_env_def)

lemma sim_status_rdy: "sim_status h AND ATA_STATUS_RDY \<noteq> 0"
  by (simp add: sim_status_def ATA_STATUS_RDY_def ATA_STATUS_DRQ_def ATA_STATUS_ERR_def)

lemma sim_status_err:
  "sim_status h AND ATA_STATUS_ERR \<noteq> 0 \<longleftrightarrow> sim_active h \<and> bad h (cursor h div 256)"
  by (simp add: sim_status_def ATA_STATUS_RDY_def ATA_STATUS_DRQ_def ATA_STATUS_ERR_def)

lemma sim_status_port: "sim_inb base (base + ATA_REG_STATUS) h = (sim_status h, h)"
  by (simp add: sim_inb_def)

lemma sim_wait_ready:
  "bus (mem w d) = base \<Longrightarrow>
   ata_wait_ready (sim_env base) d w =
     Some (w\<lparr>mem := (mem w)(d := (mem w d)\<lparr>wait_irq := 0\<rparr>),
             trace := trace w @ [Inb (base + ATA_REG_STATUS) (sim_status (hw w))],
             stores := stores w @
               [\<lparr>st_site = In_ata_wait_ready, st_dev = d, st_val = 1,
                 st_guard = spinlock (mem w d)\<rparr>,
                \<lparr>st_site = In_ata_wait_ready, st_dev = d, st_val = 0,
                 st_guard = spinlock (mem w d)\<rparr>]\<rparr>)"
  apply (simp add: ata_wait_ready_def)
  apply (subst ata_wait_ready_loop.simps)
  apply (simp add: ata_is_ready_def inb_def sim_status_port sim_status_rdy set_wait_irq_def)
  done

lemma sim_has_err:
  "bus (mem w d) = base \<Longrightarrow>
   ata_has_err (sim_env base) d w =
     (sim_status (hw w) AND ATA_STATUS_ERR,
      w\<lparr>trace := trace w @ [Inb (base + ATA_REG_STATUS) (sim_status (hw w))]\<rparr>)"
  by (simp add: ata_has_err_def inb_def sim_status_port)

lemma store_words_below: "a < c \<Longrightarrow> store_words m c vs a = m a"
  by (induction vs arbitrary: m c) simp_all

lemma store_words_nth: "i < length vs \<Longrightarrow> store_words m c vs (c + i) = vs ! i"
proof (induction vs arbitrary: m c i)
  case Nil
  then show ?case by simp
next
  case (Cons v vs)
  show ?case
  proof (cases i)
    case 0
    then show ?thesis by (simp add: store_words_below)
  next
    case (Suc k)
    with Cons.prems have "k < length vs" by simp
    then have "store_words (m(c := v)) (c + 1) vs (c + 1 + k) = vs ! k"
      by (rule Cons.IH)
    with Suc show ?thesis by simp
  qed
qed

lemma store_words_append:
  "store_words m c (xs @ ys) = store_words (store_words m c xs) (c + length xs) ys"
  by (induction xs arbitrary: m c) simp_all

lemma take_drop_step:
  "p < length b \<Longrightarrow> take (Suc k) (drop p b) = b ! p # take k (drop (Suc p) b)"
  by (simp add: Cons_nth_drop_Suc [symmetric])

lemma sim_write_words:
  "bus (mem w d) = base \<Longrightarrow> mode (hw w) = Writing \<Longrightarrow> k \<le> 256 \<Longrightarrow>
   k \<le> remaining (hw w) \<Longrightarrow> p + k \<le> length buf \<Longrightarrow>
   ata_write_words (sim_env base) d (256 - k) buf p w =
     Some (p + k,
       w\<lparr>hw := (hw w)\<lparr>media := (media (hw w))(sim_sel (hw w) :=
                 store_words (media (hw w) (sim_sel (hw w))) (cursor (hw w))
                   (take k (drop p buf))),
               cursor := cursor (hw w) + k,
               remaining := remaining (hw w) - k\<rparr>,
         trace := trace w @ map (Outw (base + ATA_REG_DATA)) (take k (drop p buf))\<rparr>)"
proof (induction k arbitrary: p w)
  case 0
  then show ?case by (simp add: ata_write_words.simps [of _ d 256])
next
  case (Suc k)
  define j where "j = 256 - Suc k"
  with Suc.prems have lt: "j < 256" and nx: "j + 1 = 256 - k" by simp_all
  from Suc.prems have pl: "p < length buf" and rem: "0 < remaining (hw w)" by simp_all
  define h1 where "h1 = (hw w)\<lparr>media := (media (hw w))(sim_sel (hw w) :=
        (media (hw w) (sim_sel (hw w)))(cursor (hw w) := buf ! p)),
      cursor := cursor (hw w) + 1, remaining := remaining (hw w) - 1\<rparr>"
  define w1 where "w1 = w\<lparr>hw := h1, trace := trace w @ [Outw (base + ATA_REG_DATA) (buf ! p)]\<rparr>"
  have o: "outw (sim_env base) (base + ATA_REG_DATA) (buf ! p) w = w1"
    using Suc.prems(2) rem by (simp add: outw_def sim_outw_def w1_def h1_def)
  have sel1: "sim_sel h1 = sim_sel (hw w)" by (simp add: h1_def sim_sel_def)
  have p1: "bus (mem w1 d) = base" "mode (hw w1) = Writing" "k \<le> 256"
    "k \<le> remaining (hw w1)" "p + 1 + k \<le> length buf"
    using Suc.prems by (simp_all add: w1_def h1_def)
  note ih = Suc.IH [OF p1]
  have "ata_write_words (sim_env base) d j buf p w =
      ata_write_words (sim_env base) d (j + 1) buf (p + 1) w1"
    using lt pl Suc.prems(1) o by (simp add: ata_write_words.simps [of _ d j])
  then have unf: "ata_write_words (sim_env base) d (256 - Suc k) buf p w =
      ata_write_words (sim_env base) d (256 - k) buf (p + 1) w1"
    by (simp only: nx) (simp only: j_def)
  have tk: "take (Suc k) (drop p buf) = buf ! p # take k (drop (Suc p) buf)"
    using pl by (rule take_drop_step)
  have hw_w1: "hw w1 = h1" and tr_w1: "trace w1 = trace w @ [Outw (base + ATA_REG_DATA) (buf ! p)]"
    by (simp_all add: w1_def)
  have h1f: "media h1 = (media (hw w))(sim_sel (hw w) :=
        (media (hw w) (sim_sel (hw w)))(cursor (hw w) := buf ! p))"
    "cursor h1 = cursor (hw w) + 1" "remaining h1 = remaining (hw w) - 1"
    by (simp_all add: h1_def)
  define hT where "hT = (hw w)\<lparr>media := (media (hw w))(sim_sel (hw w) :=
          store_words (media (hw w) (sim_sel (hw w))) (cursor (hw w))
            (buf ! p # take k (drop (Suc p) buf))),
        cursor := cursor (hw w) + Suc k, remaining := remaining (hw w) - Suc k\<rparr>"
  have hweq: "h1\<lparr>media := (media h1)(sim_sel (hw w) :=
          store_words (media h1 (sim_sel (hw w))) (cursor h1) (take k (drop (p + 1) buf))),
        cursor := cursor h1 + k, remaining := remaining h1 - k\<rparr> = hT"
    unfolding hT_def by (rule sim_disk.equality) (auto simp: h1_def fun_eq_iff)
  show ?case
    unfolding unf ih hw_w1 tr_w1 sel1 tk hweq hT_def [symmetric]
    by (simp add: w1_def)
qed

lemma sim_read_words:
  "bus (mem w d) = base \<Longrightarrow> mode (hw w) = Reading \<Longrightarrow> k \<le> 256 \<Longrightarrow>
   k \<le> remaining (hw w) \<Longrightarrow> p + k \<le> length out \<Longrightarrow>
   ata_read_words (sim_env base) d (256 - k) out p w =
     Some (take p out @
             map (media (hw w) (sim_sel (hw w))) [cursor (hw w) ..< cursor (hw w) + k] @
             drop (p + k) out,
           p + k,
           w\<lparr>hw := (hw w)\<lparr>cursor := cursor (hw w) + k, remaining := remaining (hw w) - k\<rparr>,
             trace := trace w @
               map (\<lambda>a. Inw (base + ATA_REG_DATA) (media (hw w) (sim_sel (hw w)) a))
                 [cursor (hw w) ..< cursor (hw w) + k]\<rparr>)"
proof (induction k arbitrary: p w out)
  case 0
  then show ?case by (simp add: ata_read_words.simps [of _ d 256])
next
  case (Suc k)
  define j where "j = 256 - Suc k"
  with Suc.prems have lt: "j < 256" and nx: "j + 1 = 256 - k" by simp_all
  from Suc.prems have pl: "p < length out" and rem: "0 < remaining (hw w)" by simp_all
  define v where "v = media (hw w) (sim_sel (hw w)) (cursor (hw w))"
  define h1 where "h1 = (hw w)\<lparr>cursor := cursor (hw w) + 1, remaining := remaining (hw w) - 1\<rparr>"
  define w1 where "w1 = w\<lparr>hw := h1, trace := trace w @ [Inw (base + ATA_REG_DATA) v]\<rparr>"
  have o: "inw (sim_env base) (base + ATA_REG_DATA) w = (v, w1)"
    using Suc.prems(2) rem by (simp add: inw_def sim_inw_def w1_def h1_def v_def)
  have sel1: "sim_sel h1 = sim_sel (hw w)" by (simp add: h1_def sim_sel_def)
  have p1: "bus (mem w1 d) = base" "mode (hw w1) = Reading" "k \<le> 256"
    "k \<le> remaining (hw w1)" "p + 1 + k \<le> length (out[p := v])"
    using Suc.prems by (simp_all add: w1_def h1_def)
  note ih = Suc.IH [OF p1]
  have "ata_read_words (sim_env base) d j out p w =
      ata_read_words (sim_env base) d (j + 1) (out[p := v]) (p + 1) w1"
    using lt pl Suc.prems(1) o by (simp add: ata_read_words.simps [of _ d j])
  then have unf: "ata_read_words (sim_env base) d (256 - Suc k) out p w =
      ata_read_words (sim_env base) d (256 - k) (out[p := v]) (p + 1) w1"
    by (simp only: nx) (simp only: j_def)
  have hw_w1: "hw w1 = h1" and tr_w1: "trace w1 = trace w @ [Inw (base + ATA_REG_DATA) v]"
    by (simp_all add: w1_def)
  have h1f: "media h1 = media (hw w)" "cursor h1 = cursor (hw w) + 1"
    "remaining h1 = remaining (hw w) - 1"
    by (simp_all add: h1_def)
  have upt: "[cursor (hw w) ..< cursor (hw w) + Suc k] =
      cursor (hw w) # [cursor (hw w) + 1 ..< cursor (hw w) + 1 + k]"
    by (simp add: upt_conv_Cons)
  have buf: "take (p + 1) (out[p := v]) = take p out @ [v]"
    using pl by (simp add: take_Suc_conv_app_nth)
  have dr: "drop (p + 1 + k) (out[p := v]) = drop (p + Suc k) out"
    by simp
  define hT where "hT = (hw w)\<lparr>cursor := cursor (hw w) + Suc k,
    remaining := remaining (hw w) - Suc k\<rparr>"
  have hweq: "h1\<lparr>cursor := cursor (hw w) + 1 + k, remaining := remaining (hw w) - 1 - k\<rparr> = hT"
    unfolding hT_def by (rule sim_disk.equality) (simp_all add: h1_def)
  show ?case
    unfolding unf ih hw_w1 tr_w1 sel1 h1f upt buf dr hweq hT_def [symmetric]
    by (simp add: w1_def v_def)
qed

lemma sim_sector_check:
  assumes b: "bus (mem w d) = base"
    and ok: "sim_active (hw w) \<longrightarrow> \<not> bad (hw w) (cursor (hw w) div 256)"
  shows "\<exists>w2. ata_wait_ready (sim_env base) d w = Some (w2\<lparr>trace := trace w @ [Inb (base + ATA_REG_STATUS) (sim_status (hw w))]\<rparr>) \<and>
           ata_has_err (sim_env base) d (w2\<lparr>trace := trace w @ [Inb (base + ATA_REG_STATUS) (sim_status (hw w))]\<rparr>) =
             (0, w2\<lparr>trace := trace w @ [Inb (base + ATA_REG_STATUS) (sim_status (hw w)),
                                        Inb (base + ATA_REG_STATUS) (sim_status (hw w))]\<rparr>) \<and>
           hw w2 = hw w \<and> bus (mem w2 d) = base"
proof -
  define w2 where "w2 = w\<lparr>mem := (mem w)(d := (mem w d)\<lparr>wait_irq := 0\<rparr>),
             stores := stores w @
               [\<lparr>st_site = In_ata_wait_ready, st_dev = d, st_val = 1,
                 st_guard = spinlock (mem w d)\<rparr>,
                \<lparr>st_site = In_ata_wait_ready, st_dev = d, st_val = 0,
                 st_guard = spinlock (mem w d)\<rparr>]\<rparr>"
  have e: "sim_status (hw w) AND ATA_STATUS_ERR = 0"
    using sim_status_err [of "hw w"] ok by blast
  have 1: "ata_wait_ready (sim_env base) d w =
      Some (w2\<lparr>trace := trace w @ [Inb (base + ATA_REG_STATUS) (sim_status (hw w))]\<rparr>)"
    by (simp add: sim_wait_ready [OF b] w2_def)
  have 2: "bus (mem (w2\<lparr>trace := trace w @ [Inb (base + ATA_REG_STATUS) (sim_status (hw w))]\<rparr>) d) = base"
    using b by (simp add: w2_def)
  have 3: "ata_has_err (sim_env base) d (w2\<lparr>trace := trace w @ [Inb (base + ATA_REG_STATUS) (sim_status (hw w))]\<rparr>) =
             (0, w2\<lparr>trace := trace w @ [Inb (base + ATA_REG_STATUS) (sim_status (hw w)),
                                        Inb (base + ATA_REG_STATUS) (sim_status (hw w))]\<rparr>)"
    unfolding sim_has_err [OF 2] using e by (simp add: w2_def)
  have 4: "hw w2 = hw w" "bus (mem w2 d) = base" using b by (simp_all add: w2_def)
  from 1 3 4 show ?thesis by blast
qed

lemma sim_write_loop:
  "bus (mem w d) = base \<Longrightarrow> mode (hw w) = Writing \<Longrightarrow> 256 * m \<le> remaining (hw w) \<Longrightarrow>
   p + 256 * m \<le> length buf \<Longrightarrow>
   (\<forall>t<m. \<not> bad (hw w) ((cursor (hw w) + 256 * t) div 256)) \<Longrightarrow>
   \<exists>w'. ata_write_loop (sim_env base) d i (i + m) buf p w = Some (None, p + 256 * m, w') \<and>
     hw w' = (hw w)\<lparr>media := (media (hw w))(sim_sel (hw w) :=
                 store_words (media (hw w) (sim_sel (hw w))) (cursor (hw w))
                   (take (256 * m) (drop p buf))),
               cursor := cursor (hw w) + 256 * m,
               remaining := remaining (hw w) - 256 * m\<rparr> \<and>
     words_out (trace w') = words_out (trace w) @ take (256 * m) (drop p buf)"
proof (induction m arbitrary: i p w)
  case 0
  have "hw w = (hw w)\<lparr>media := (media (hw w))(sim_sel (hw w) :=
                 store_words (media (hw w) (sim_sel (hw w))) (cursor (hw w))
                   (take (256 * 0) (drop p buf))),
               cursor := cursor (hw w) + 256 * 0,
               remaining := remaining (hw w) - 256 * 0\<rparr>"
    by (rule sim_disk.equality) simp_all
  then have "ata_write_loop (sim_env base) d i (i + 0) buf p w = Some (None, p + 256 * 0, w) \<and>
     hw w = (hw w)\<lparr>media := (media (hw w))(sim_sel (hw w) :=
                 store_words (media (hw w) (sim_sel (hw w))) (cursor (hw w))
                   (take (256 * 0) (drop p buf))),
               cursor := cursor (hw w) + 256 * 0,
               remaining := remaining (hw w) - 256 * 0\<rparr> \<and>
     words_out (trace w) = words_out (trace w) @ take (256 * 0) (drop p buf)"
    by (simp only: ata_write_loop_done simp_thms) simp
  then show ?case by (rule exI)
next
  case (Suc m)
  let ?E = "sim_env base"
  define h where "h = hw w"
  have act: "sim_active h" using Suc.prems(2,3) by (simp add: sim_active_def h_def)
  have nb: "\<not> bad h (cursor h div 256)" using Suc.prems(5) by (auto simp: h_def)
  from sim_sector_check [OF Suc.prems(1)] nb obtain w2 where
    wr: "ata_wait_ready ?E d w = Some (w2\<lparr>trace := trace w @ [Inb (base + ATA_REG_STATUS) (sim_status (hw w))]\<rparr>)" and
    he: "ata_has_err ?E d (w2\<lparr>trace := trace w @ [Inb (base + ATA_REG_STATUS) (sim_status (hw w))]\<rparr>) =
           (0, w2\<lparr>trace := trace w @ [Inb (base + ATA_REG_STATUS) (sim_status (hw w)),
                                      Inb (base + ATA_REG_STATUS) (sim_status (hw w))]\<rparr>)" and
    w2: "hw w2 = hw w" "bus (mem w2 d) = base"
    unfolding h_def by blast
  define wB where "wB = w2\<lparr>trace := trace w @ [Inb (base + ATA_REG_STATUS) (sim_status (hw w)),
                                      Inb (base + ATA_REG_STATUS) (sim_status (hw w))]\<rparr>"
  have wB: "hw wB = h" "bus (mem wB d) = base" "words_out (trace wB) = words_out (trace w)"
    using w2 by (simp_all add: wB_def h_def)
  define ws where "ws = take 256 (drop p buf)"
  have lws: "length ws = 256" using Suc.prems(4) by (simp add: ws_def)
  define hC where "hC = h\<lparr>media := (media h)(sim_sel h :=
                 store_words (media h (sim_sel h)) (cursor h) ws),
               cursor := cursor h + 256, remaining := remaining h - 256\<rparr>"
  define wC where "wC = wB\<lparr>hw := hC, trace := trace wB @ map (Outw (base + ATA_REG_DATA)) ws\<rparr>"
  have ww: "ata_write_words ?E d 0 buf p wB = Some (p + 256, wC)"
    using sim_write_words [of wB d base 256 p buf] wB Suc.prems(2,3,4)
    by (simp add: wC_def hC_def ws_def h_def)
  have wo_map: "words_out (map (Outw q) xs) = xs" for q xs
    by (induction xs) simp_all
  have wC: "bus (mem wC d) = base" "mode (hw wC) = Writing" "256 * m \<le> remaining (hw wC)"
    "p + 256 + 256 * m \<le> length buf" "hw wC = hC"
    "words_out (trace wC) = words_out (trace w) @ ws"
    using wB Suc.prems(2,3,4) by (simp_all add: wC_def hC_def h_def wo_map)
  have hl: "\<forall>t<m. \<not> bad (hw wC) ((cursor (hw wC) + 256 * t) div 256)"
  proof (intro allI impI)
    fix t assume "t < m"
    then have "Suc t < Suc m" by simp
    with Suc.prems(5) have nbt: "\<not> bad (hw w) ((cursor (hw w) + 256 * Suc t) div 256)" by blast
    have c: "cursor (hw wC) + 256 * t = cursor (hw w) + 256 * Suc t"
      by (simp add: wC(5) hC_def h_def)
    have bd: "bad (hw wC) = bad (hw w)" by (simp add: wC(5) hC_def h_def)
    from nbt show "\<not> bad (hw wC) ((cursor (hw wC) + 256 * t) div 256)"
      unfolding c bd .
  qed
  from Suc.IH [OF wC(1,2,3,4) hl, of "i + 1"] obtain w' where
    l: "ata_write_loop ?E d (i + 1) (i + 1 + m) buf (p + 256) wC = Some (None, p + 256 + 256 * m, w')" and
    hw': "hw w' = (hw wC)\<lparr>media := (media (hw wC))(sim_sel (hw wC) :=
                 store_words (media (hw wC) (sim_sel (hw wC))) (cursor (hw wC))
                   (take (256 * m) (drop (p + 256) buf))),
               cursor := cursor (hw wC) + 256 * m,
               remaining := remaining (hw wC) - 256 * m\<rparr>" and
    tr': "words_out (trace w') = words_out (trace wC) @ take (256 * m) (drop (p + 256) buf)"
    by blast
  have step: "ata_write_loop ?E d i (i + Suc m) buf p w =
      ata_write_loop ?E d (i + 1) (i + 1 + m) buf (p + 256) wC"
    using wr he ww by (simp add: ata_write_loop_step wB_def)
  have tk: "take (256 * Suc m) (drop p buf) = ws @ take (256 * m) (drop (p + 256) buf)"
    unfolding ws_def by (simp add: take_add ac_simps)
  have selC: "sim_sel hC = sim_sel h" by (simp add: hC_def sim_sel_def)
  have hweq: "hw w' = (hw w)\<lparr>media := (media (hw w))(sim_sel (hw w) :=
                 store_words (media (hw w) (sim_sel (hw w))) (cursor (hw w))
                   (take (256 * Suc m) (drop p buf))),
               cursor := cursor (hw w) + 256 * Suc m,
               remaining := remaining (hw w) - 256 * Suc m\<rparr>"
    unfolding hw' wC(5) selC tk h_def [symmetric]
    by (rule sim_disk.equality) (simp_all add: hC_def store_words_append lws)
  from step l have A: "ata_write_loop ?E d i (i + Suc m) buf p w =
      Some (None, p + 256 * Suc m, w')"
    by simp
  have B: "words_out (trace w') = words_out (trace w) @ take (256 * Suc m) (drop p buf)"
    unfolding tk tr' wC(6) by simp
  show ?case
    by (rule exI [of _ w']) (rule conjI [OF A conjI [OF hweq B]])
qed

lemma words_in_map_Inw: "words_in (map (\<lambda>a. Inw q (f a)) xs) = map f xs"
  by (induction xs) simp_all

lemma words_out_map_Outw: "words_out (map (Outw q) xs) = xs"
  by (induction xs) simp_all

lemma sim_read_loop:
  "bus (mem w d) = base \<Longrightarrow> mode (hw w) = Reading \<Longrightarrow> 256 * m \<le> remaining (hw w) \<Longrightarrow>
   p + 256 * m \<le> length out \<Longrightarrow>
   (\<forall>t<m. \<not> bad (hw w) ((cursor (hw w) + 256 * t) div 256)) \<Longrightarrow>
   \<exists>w'. ata_read_loop (sim_env base) d i (i + m) out p w =
       Some (None,
         take p out @
           map (media (hw w) (sim_sel (hw w))) [cursor (hw w) ..< cursor (hw w) + 256 * m] @
           drop (p + 256 * m) out,
         p + 256 * m, w') \<and>
     hw w' = (hw w)\<lparr>cursor := cursor (hw w) + 256 * m,
               remaining := remaining (hw w) - 256 * m\<rparr> \<and>
     words_in (trace w') = words_in (trace w) @
       map (media (hw w) (sim_sel (hw w))) [cursor (hw w) ..< cursor (hw w) + 256 * m]"
proof (induction m arbitrary: i p w out)
  case 0
  have "hw w = (hw w)\<lparr>cursor := cursor (hw w) + 256 * 0,
               remaining := remaining (hw w) - 256 * 0\<rparr>"
    by (rule sim_disk.equality) simp_all
  then have "ata_read_loop (sim_env base) d i (i + 0) out p w =
       Some (None,
         take p out @
           map (media (hw w) (sim_sel (hw w))) [cursor (hw w) ..< cursor (hw w) + 256 * 0] @
           drop (p + 256 * 0) out,
         p + 256 * 0, w) \<and>
     hw w = (hw w)\<lparr>cursor := cursor (hw w) + 256 * 0,
               remaining := remaining (hw w) - 256 * 0\<rparr> \<and>
     words_in (trace w) = words_in (trace w) @
       map (media (hw w) (sim_sel (hw w))) [cursor (hw w) ..< cursor (hw w) + 256 * 0]"
    by (simp only: ata_read_loop_done simp_thms) simp
  then show ?case by (rule exI)
next
  case (Suc m)
  let ?E = "sim_env base"
  define h where "h = hw w"
  define M where "M = media h (sim_sel h)"
  define c where "c = cursor h"
  have act: "sim_active h" using Suc.prems(2,3) by (simp add: sim_active_def h_def)
  have nb: "\<not> bad h (cursor h div 256)" using Suc.prems(5) by (auto simp: h_def)
  from sim_sector_check [OF Suc.prems(1)] nb obtain w2 where
    wr: "ata_wait_ready ?E d w = Some (w2\<lparr>trace := trace w @ [Inb (base + ATA_REG_STATUS) (sim_status (hw w))]\<rparr>)" and
    he: "ata_has_err ?E d (w2\<lparr>trace := trace w @ [Inb (base + ATA_REG_STATUS) (sim_status (hw w))]\<rparr>) =
           (0, w2\<lparr>trace := trace w @ [Inb (base + ATA_REG_STATUS) (sim_status (hw w)),
                                      Inb (base + ATA_REG_STATUS) (sim_status (hw w))]\<rparr>)" and
    w2: "hw w2 = hw w" "bus (mem w2 d) = base"
    unfolding h_def by blast
  define wB where "wB = w2\<lparr>trace := trace w @ [Inb (base + ATA_REG_STATUS) (sim_status (hw w)),
                                      Inb (base + ATA_REG_STATUS) (sim_status (hw w))]\<rparr>"
  have wB: "hw wB = h" "bus (mem wB d) = base" "words_in (trace wB) = words_in (trace w)"
    using w2 by (simp_all add: wB_def h_def)
  define out1 where "out1 = take p out @ map M [c ..< c + 256] @ drop (p + 256) out"
  define hC where "hC = h\<lparr>cursor := c + 256, remaining := remaining h - 256\<rparr>"
  define wC where "wC = wB\<lparr>hw := hC, trace := trace wB @
     map (\<lambda>a. Inw (base + ATA_REG_DATA) (M a)) [c ..< c + 256]\<rparr>"
  have rw: "ata_read_words ?E d 0 out p wB = Some (out1, p + 256, wC)"
    using sim_read_words [of wB d base 256 p out] wB Suc.prems(2,3,4)
    by (simp add: wC_def hC_def out1_def h_def M_def c_def)
  have pl: "p \<le> length out" "p + 256 \<le> length out" using Suc.prems(4) by simp_all
  have lo: "length out1 = length out" using pl by (simp add: out1_def)
  have wC: "bus (mem wC d) = base" "mode (hw wC) = Reading" "256 * m \<le> remaining (hw wC)"
    "p + 256 + 256 * m \<le> length out1" "hw wC = hC"
    "words_in (trace wC) = words_in (trace w) @ map M [c ..< c + 256]"
    using wB Suc.prems(2,3,4) lo by (simp_all add: wC_def hC_def h_def words_in_map_Inw)
  have hl: "\<forall>t<m. \<not> bad (hw wC) ((cursor (hw wC) + 256 * t) div 256)"
  proof (intro allI impI)
    fix t assume "t < m"
    then have "Suc t < Suc m" by simp
    with Suc.prems(5) have nbt: "\<not> bad (hw w) ((cursor (hw w) + 256 * Suc t) div 256)" by blast
    have cc: "cursor (hw wC) + 256 * t = cursor (hw w) + 256 * Suc t"
      by (simp add: wC(5) hC_def h_def c_def)
    have bd: "bad (hw wC) = bad (hw w)" by (simp add: wC(5) hC_def h_def)
    from nbt show "\<not> bad (hw wC) ((cursor (hw wC) + 256 * t) div 256)"
      unfolding cc bd .
  qed
  have hCf: "media hC = media h" "sim_sel hC = sim_sel h" "cursor hC = c + 256"
    by (simp_all add: hC_def sim_sel_def)
  from Suc.IH [OF wC(1,2,3,4) hl, of "i + 1"] obtain w' where
    l: "ata_read_loop ?E d (i + 1) (i + 1 + m) out1 (p + 256) wC =
       Some (None,
         take (p + 256) out1 @ map M [c + 256 ..< c + 256 + 256 * m] @
           drop (p + 256 + 256 * m) out1,
         p + 256 + 256 * m, w')" and
    hw': "hw w' = hC\<lparr>cursor := c + 256 + 256 * m, remaining := remaining hC - 256 * m\<rparr>" and
    tr': "words_in (trace w') = words_in (trace wC) @ map M [c + 256 ..< c + 256 + 256 * m]"
    unfolding wC(5) hCf M_def [symmetric] by blast
  have step: "ata_read_loop ?E d i (i + Suc m) out p w =
      ata_read_loop ?E d (i + 1) (i + 1 + m) out1 (p + 256) wC"
    using wr he rw by (simp add: ata_read_loop_step wB_def)
  have e: "c + 256 * Suc m = c + 256 + 256 * m" by simp
  have upt: "[c ..< c + 256 * Suc m] = [c ..< c + 256] @ [c + 256 ..< c + 256 + 256 * m]"
    unfolding e by (rule upt_add_eq_append) simp
  have tk1: "take (p + 256) out1 = take p out @ map M [c ..< c + 256]"
    using pl by (simp add: out1_def)
  have dr1: "drop (p + 256 + 256 * m) out1 = drop (p + 256 * Suc m) out"
    using pl by (simp add: out1_def ac_simps)
  have hweq: "hw w' = (hw w)\<lparr>cursor := cursor (hw w) + 256 * Suc m,
               remaining := remaining (hw w) - 256 * Suc m\<rparr>"
    unfolding hw' h_def [symmetric]
    by (rule sim_disk.equality) (simp_all add: hC_def c_def)
  have A: "ata_read_loop ?E d i (i + Suc m) out p w =
      Some (None,
         take p out @ map M [c ..< c + 256 * Suc m] @ drop (p + 256 * Suc m) out,
         p + 256 * Suc m, w')"
    unfolding step l tk1 dr1 upt by simp
  have B: "words_in (trace w') = words_in (trace w) @ map M [c ..< c + 256 * Suc m]"
    unfolding upt tr' wC(6) by simp
  show ?case
    unfolding h_def [symmetric] M_def [symmetric] c_def [symmetric]
    by (rule exI [of _ w']) (rule conjI [OF A conjI [OF hweq [unfolded h_def [symmetric] c_def [symmetric]] B]])
qed

lemma sim_outb_regs:
  "sim_outb base (base + ATA_REG_DRIVE) v h = h\<lparr>reg_drive := v\<rparr>"
  "sim_outb base (base + ATA_REG_SECTOR_COUNT) v h = h\<lparr>reg_count := v\<rparr>"
  "sim_outb base (base + ATA_REG_SECTOR_NUMBER) v h = h\<lparr>reg_sector := v\<rparr>"
  "sim_outb base (base + ATA_REG_CYLINDER_LOW) v h = h\<lparr>reg_cyl_low := v\<rparr>"
  "sim_outb base (base + ATA_REG_CYLINDER_HIGH) v h = h\<lparr>reg_cyl_high := v\<rparr>"
  "sim_outb base (base + ATA_REG_COMMAND) v h = sim_command v h"
  by (simp_all add: sim_outb_def ATA_REG_DRIVE_def ATA_REG_SECTOR_COUNT_def
      ATA_REG_SECTOR_NUMBER_def ATA_REG_CYLINDER_LOW_def ATA_REG_CYLINDER_HIGH_def
      ATA_REG_COMMAND_def)

lemma sim_outb_hw: "hw (outb (sim_env base) p v w) = sim_outb base p v (hw w)"
  by (simp add: outb_def)

lemma sim_setup_hw:
  assumes "bus (mem w d) = base"
  shows "hw (ata_setup (sim_env base) d slave lba sectors cmd w) =
     sim_command cmd ((hw w)\<lparr>
       reg_drive := ucast ((if slave \<noteq> 0 then 0xe0 else 0xf0) OR (drop_bit 24 lba AND 0xf)),
       reg_count := ucast sectors, reg_sector := ucast lba,
       reg_cyl_low := ucast (drop_bit 8 lba), reg_cyl_high := ucast (drop_bit 16 lba)\<rparr>)"
  unfolding ata_setup_def Let_def ata_command_def
  apply (simp only: outb_fields spin_lock_fields sim_outb_hw fun_upd_same)
  apply (simp add: assms sim_outb_regs)
  done

lemma sim_count_sectors:
  assumes "0 < sectors" "sectors \<le> 0xff" "reg_count h = ucast (sectors :: u32)"
  shows "sim_count h = unat sectors"
proof -
  from assms(2) have lt: "unat sectors < 256" by (simp add: word_le_nat_alt)
  then have u: "unat (ucast sectors :: u8) = unat sectors" by (simp add: unsigned_ucast_eq take_bit_nat_eq_self)
  from assms(1) have "unat sectors \<noteq> 0" by (simp add: word_less_nat_alt)
  with u have "(ucast sectors :: u8) \<noteq> 0" by (metis unat_0)
  with u assms(3) show ?thesis by (simp add: sim_count_def)
qed

lemma sim_setup_facts:
  assumes b: "bus (mem w d) = base" and s: "0 < sectors" "sectors \<le> 0xff"
    and c: "cmd = ATA_CMD_READ_SECTORS \<or> cmd = ATA_CMD_WRITE_SECTORS"
    and h0_def: "h0 = hw (ata_setup (sim_env base) d slave lba sectors cmd w)"
  shows "mode h0 = (if cmd = ATA_CMD_READ_SECTORS then Reading else Writing)"
    and "remaining h0 = 256 * unat sectors"
    and "media h0 = media (hw w)" and "bad h0 = bad (hw w)"
    and "cursor h0 = 256 * sim_lba h0"
    and "reg_drive h0 =
      ucast ((if slave \<noteq> 0 then 0xe0 else 0xf0) OR (drop_bit 24 lba AND 0xf))"
    and "reg_sector h0 = ucast lba" and "reg_cyl_low h0 = ucast (drop_bit 8 lba)"
    and "reg_cyl_high h0 = ucast (drop_bit 16 lba)"
proof -
  define r where "r = (hw w)\<lparr>
       reg_drive := ucast ((if slave \<noteq> 0 then 0xe0 else 0xf0) OR (drop_bit 24 lba AND 0xf)),
       reg_count := ucast sectors, reg_sector := ucast lba,
       reg_cyl_low := ucast (drop_bit 8 lba), reg_cyl_high := ucast (drop_bit 16 lba)\<rparr>"
  have h0: "h0 = sim_command cmd r"
    unfolding h0_def r_def by (rule sim_setup_hw [OF b])
  have cnt: "sim_count r = unat sectors"
    by (rule sim_count_sectors [OF s]) (simp add: r_def)
  have h0': "h0 = r\<lparr>mode := (if cmd = ATA_CMD_READ_SECTORS then Reading else Writing),
      cursor := sim_lba r * 256, remaining := unat sectors * 256\<rparr>"
    using c unfolding h0 sim_command_def cnt
    by (auto simp: ATA_CMD_READ_SECTORS_def ATA_CMD_WRITE_SECTORS_def)
  have lba: "sim_lba h0 = sim_lba r" by (simp add: h0' sim_lba_def)
  show "mode h0 = (if cmd = ATA_CMD_READ_SECTORS then Reading else Writing)"
    by (simp add: h0')
  show "remaining h0 = 256 * unat sectors" by (simp add: h0')
  show "media h0 = media (hw w)" by (simp add: h0' r_def)
  show "bad h0 = bad (hw w)" by (simp add: h0' r_def)
  show "cursor h0 = 256 * sim_lba h0" unfolding lba by (simp add: h0')
  show "reg_drive h0 =
      ucast ((if slave \<noteq> 0 then 0xe0 else 0xf0) OR (drop_bit 24 lba AND 0xf))"
    by (simp add: h0' r_def)
  show "reg_sector h0 = ucast lba" by (simp add: h0' r_def)
  show "reg_cyl_low h0 = ucast (drop_bit 8 lba)" by (simp add: h0' r_def)
  show "reg_cyl_high h0 = ucast (drop_bit 16 lba)" by (simp add: h0' r_def)
qed

lemma store_words_map:
  "map (store_words m c vs) [c ..< c + length vs] = vs"
proof (rule nth_equalityI)
  show "length (map (store_words m c vs) [c ..< c + length vs]) = length vs" by simp
next
  fix i assume "i < length (map (store_words m c vs) [c ..< c + length vs])"
  then have i: "i < length vs" by simp
  then have "[c ..< c + length vs] ! i = c + i" by simp
  with i show "map (store_words m c vs) [c ..< c + length vs] ! i = vs ! i"
    by (simp add: store_words_nth)
qed

lemma sim_regs_lba:
  "reg_drive h = reg_drive h' \<Longrightarrow> reg_sector h = reg_sector h' \<Longrightarrow>
   reg_cyl_low h = reg_cyl_low h' \<Longrightarrow> reg_cyl_high h = reg_cyl_high h' \<Longrightarrow>
   sim_lba h = sim_lba h' \<and> sim_sel h = sim_sel h'"
  by (simp add: sim_lba_def sim_sel_def)

lemma sim_write:
  assumes s: "0 < sectors" "sectors \<le> 0xff"
    and lb: "length buf = 256 * unat sectors"
    and b: "bus (mem w d) = base"
    and ok: "\<forall>s. \<not> bad (hw w) s"
    and h0: "h0 = hw (ata_setup (sim_env base) d slave lba sectors ATA_CMD_WRITE_SECTORS w)"
  shows "\<exists>w1. ata_write (sim_env base) (Some d) slave lba (Some buf) sectors w = Some (0, w1) \<and>
     words_out (trace w1) = words_out (trace w) @ buf \<and>
     bus (mem w1 d) = base \<and> bad (hw w1) = bad (hw w) \<and>
     media (hw w1) (sim_sel h0) = store_words (media (hw w) (sim_sel h0)) (256 * sim_lba h0) buf"
proof -
  let ?E = "sim_env base"
  define w0 where "w0 = ata_setup ?E d slave lba sectors ATA_CMD_WRITE_SECTORS w"
  have hw0: "hw w0 = h0" by (simp add: h0 w0_def)
  have c: "ATA_CMD_WRITE_SECTORS = ATA_CMD_READ_SECTORS \<or>
    ATA_CMD_WRITE_SECTORS = ATA_CMD_WRITE_SECTORS" by simp
  note f = sim_setup_facts [OF b s c h0]
  have f1: "mode h0 = Writing" "remaining h0 = 256 * unat sectors" "media h0 = media (hw w)"
    "bad h0 = bad (hw w)" "cursor h0 = 256 * sim_lba h0"
    using f(1-5) by (simp_all add: ATA_CMD_READ_SECTORS_def ATA_CMD_WRITE_SECTORS_def)
  have b0: "bus (mem w0 d) = base" using b by (simp add: w0_def ata_setup_fields)
  have tr0: "words_out (trace w0) = words_out (trace w)"
    by (simp add: w0_def ata_setup_fields setup_events_def)
  have p: "bus (mem w0 d) = base" "mode (hw w0) = Writing"
    "256 * unat sectors \<le> remaining (hw w0)" "0 + 256 * unat sectors \<le> length buf"
    "\<forall>t<unat sectors. \<not> bad (hw w0) ((cursor (hw w0) + 256 * t) div 256)"
    using b0 f1 lb ok by (simp_all add: hw0)
  from sim_write_loop [OF p, of 0] obtain wl where
    l: "ata_write_loop ?E d 0 (unat sectors) buf 0 w0 = Some (None, 256 * unat sectors, wl)" and
    hwl: "hw wl = (hw w0)\<lparr>media := (media (hw w0))(sim_sel (hw w0) :=
                 store_words (media (hw w0) (sim_sel (hw w0))) (cursor (hw w0))
                   (take (256 * unat sectors) (drop 0 buf))),
               cursor := cursor (hw w0) + 256 * unat sectors,
               remaining := remaining (hw w0) - 256 * unat sectors\<rparr>" and
    trl: "words_out (trace wl) = words_out (trace w0) @ take (256 * unat sectors) (drop 0 buf)"
    by auto
  have tb: "take (256 * unat sectors) (drop 0 buf) = buf" using lb by simp
  from ata_write_loop_ok [OF l] have "steady w0 wl" by simp
  then have bl: "bus (mem wl d) = base" using b0 by (simp add: steady_bus)
  define w1 where "w1 = spin_unlock d (ata_command ?E (bus (mem wl d)) ATA_CMD_CACHE_FLUSH wl)"
  have r: "ata_write ?E (Some d) slave lba (Some buf) sectors w = Some (0, w1)"
    using l by (simp add: ata_write_setup [OF s(2)] w0_def [symmetric] w1_def)
  have hw1: "hw w1 = sim_command ATA_CMD_CACHE_FLUSH (hw wl)"
    by (simp add: w1_def ata_command_def bl sim_outb_hw sim_outb_regs)
  have m1: "media (hw w1) = media (hw wl)" "bad (hw w1) = bad (hw wl)"
    by (simp_all add: hw1 sim_command_def ATA_CMD_CACHE_FLUSH_def ATA_CMD_READ_SECTORS_def
        ATA_CMD_WRITE_SECTORS_def)
  have ml: "media (hw wl) (sim_sel h0) = store_words (media (hw w) (sim_sel h0)) (256 * sim_lba h0) buf"
    "bad (hw wl) = bad (hw w)"
    unfolding hwl tb hw0 by (simp_all add: f1)
  have t1: "words_out (trace w1) = words_out (trace w) @ buf"
    using trl tb tr0 by (simp add: w1_def)
  have b1: "bus (mem w1 d) = base" using bl by (simp add: w1_def)
  from r t1 b1 m1 ml show ?thesis by simp
qed

lemma sim_read:
  assumes s: "0 < sectors" "sectors \<le> 0xff"
    and lb: "length out = 256 * unat sectors"
    and b: "bus (mem w d) = base"
    and ok: "\<forall>s. \<not> bad (hw w) s"
    and h0: "h0 = hw (ata_setup (sim_env base) d slave lba sectors ATA_CMD_READ_SECTORS w)"
  shows "\<exists>w1. ata_read (sim_env base) (Some d) slave lba (Some out) sectors w =
       Some (0, Some (map (media (hw w) (sim_sel h0))
                       [256 * sim_lba h0 ..< 256 * sim_lba h0 + 256 * unat sectors]), w1) \<and>
     words_in (trace w1) = words_in (trace w) @
       map (media (hw w) (sim_sel h0))
         [256 * sim_lba h0 ..< 256 * sim_lba h0 + 256 * unat sectors]"
proof -
  let ?E = "sim_env base"
  define w0 where "w0 = ata_setup ?E d slave lba sectors ATA_CMD_READ_SECTORS w"
  have hw0: "hw w0 = h0" by (simp add: h0 w0_def)
  have c: "ATA_CMD_READ_SECTORS = ATA_CMD_READ_SECTORS \<or>
    ATA_CMD_READ_SECTORS = ATA_CMD_WRITE_SECTORS" by simp
  note f = sim_setup_facts [OF b s c h0]
  have f1: "mode h0 = Reading" "remaining h0 = 256 * unat sectors" "media h0 = media (hw w)"
    "bad h0 = bad (hw w)" "cursor h0 = 256 * sim_lba h0"
    using f(1-5) by (simp_all add: ATA_CMD_READ_SECTORS_def ATA_CMD_WRITE_SECTORS_def)
  have b0: "bus (mem w0 d) = base" using b by (simp add: w0_def ata_setup_fields)
  have tr0: "words_in (trace w0) = words_in (trace w)"
    by (simp add: w0_def ata_setup_fields setup_events_def)
  have p: "bus (mem w0 d) = base" "mode (hw w0) = Reading"
    "256 * unat sectors \<le> remaining (hw w0)" "0 + 256 * unat sectors \<le> length out"
    "\<forall>t<unat sectors. \<not> bad (hw w0) ((cursor (hw w0) + 256 * t) div 256)"
    using b0 f1 lb ok by (simp_all add: hw0)
  define res where "res = map (media (hw w) (sim_sel h0))
      [256 * sim_lba h0 ..< 256 * sim_lba h0 + 256 * unat sectors]"
  from sim_read_loop [OF p, of 0] obtain wl where
    l: "ata_read_loop ?E d 0 (unat sectors) out 0 w0 =
       Some (None, take 0 out @ res @ drop (0 + 256 * unat sectors) out,
             0 + 256 * unat sectors, wl)" and
    trl: "words_in (trace wl) = words_in (trace w0) @ res"
    unfolding hw0 f1 res_def by auto
  have "take 0 out @ res @ drop (0 + 256 * unat sectors) out = res"
    using lb by simp
  with l have l': "ata_read_loop ?E d 0 (unat sectors) out 0 w0 =
       Some (None, res, 0 + 256 * unat sectors, wl)" by simp
  have r: "ata_read ?E (Some d) slave lba (Some out) sectors w = Some (0, Some res, spin_unlock d wl)"
    using l' by (simp add: ata_read_setup [OF s(2)] w0_def [symmetric])
  have t1: "words_in (trace (spin_unlock d wl)) = words_in (trace w) @ res"
    using trl tr0 by simp
  from r t1 show ?thesis unfolding res_def by blast
qed

section \<open>The test fixtures\<close>

lemma test_world_fields [simp]:
  "hw (test_world h) = h"
  "mem (test_world h) a = primary_device"
  "devices (test_world h) = None"
  "devices_cache (test_world h) = None"
  "trace (test_world h) = []"
  "stores (test_world h) = []"
  by (simp_all add: test_world_def)

lemma primary_device_fields [simp]:
  "bus primary_device = ATA_PRIMARY_BUS"
  "ctrl primary_device = ATA_PRIMARY_CTRL"
  "dev_next primary_device = None"
  "spinlock primary_device = False"
  "wait_irq primary_device = 0"
  by (simp_all add: primary_device_def)

lemma sim_disk0_fields [simp]:
  "bad (sim_disk0 bd) = bd"
  "media (sim_disk0 bd) = (\<lambda>s a. 0)"
  "mode (sim_disk0 bd) = Idle"
  by (simp_all add: sim_disk0_def)

section \<open>Errors in the middle of a transfer\<close>

lemma ata_has_err_trace:
  "trace (snd (ata_has_err env d w)) =
     trace w @ [Inb (bus (mem w d) + ATA_REG_STATUS) (fst (inb env (bus (mem w d) + ATA_REG_STATUS) w))]"
  "fst (ata_has_err env d w) = fst (inb env (bus (mem w d) + ATA_REG_STATUS) w) AND ATA_STATUS_ERR"
  "mem (snd (ata_has_err env d w)) = mem w"
  by (simp_all add: ata_has_err_def inb_def split: prod.split)

lemma ata_read_error_at:
  assumes s: "sectors \<le> 0xff" and k: "k < unat sectors"
    and l: "ata_read_loop env d 0 k b 0 (ata_setup env d slave lba sectors ATA_CMD_READ_SECTORS w) =
            Some (None, bk, pk, wk)"
    and wr: "ata_wait_ready env d wk = Some w1"
    and e: "fst (ata_has_err env d w1) \<noteq> 0"
  shows "\<exists>w' tr v.
     ata_read env (Some d) slave lba (Some b) sectors w = Some (- 1, Some bk, w') \<and>
     data_ins (trace w') = data_ins (trace w) + 256 * k \<and>
     drop (256 * k) bk = drop (256 * k) b \<and>
     \<not> spinlock (mem w' d) \<and>
     trace w' = tr @ [Inb (bus (mem w d) + ATA_REG_STATUS) v, SpinUnlock d] \<and>
     v AND ATA_STATUS_ERR \<noteq> 0"
proof -
  let ?w0 = "ata_setup env d slave lba sectors ATA_CMD_READ_SECTORS w"
  let ?v = "fst (inb env (bus (mem w1 d) + ATA_REG_STATUS) w1)"
  have k0: "0 \<le> k" by simp
  from k have kn: "k \<le> unat sectors" by simp
  note ok = ata_read_loop_ok [OF l k0]
  from ok have st: "steady ?w0 wk" and dr0: "drop pk bk = drop pk b"
    by blast+
  from ok have pk: "pk = 256 * k"
    and di: "data_ins (trace wk) = data_ins (trace ?w0) + 256 * k"
    by simp_all
  from dr0 have dr: "drop (256 * k) bk = drop (256 * k) b" unfolding pk .
  have q: "quiet wk w1" by (rule quiet_wait_ready [OF wr])
  have bus1: "bus (mem w1 d) = bus (mem w d)"
    using quiet_bus [OF q, of d] steady_bus [OF st, of d] by (simp add: ata_setup_fields)
  obtain e2 w2 where E: "ata_has_err env d w1 = (e2, w2)" by (cases "ata_has_err env d w1")
  with e have e2: "e2 \<noteq> 0" by simp
  note he = ata_has_err_trace [of env d w1, unfolded E fst_conv snd_conv]
  have "ata_read_loop env d 0 (unat sectors) b 0 ?w0 = ata_read_loop env d k (unat sectors) bk pk wk"
    by (rule ata_read_loop_extend [OF l k0 kn])
  also have "\<dots> = Some (Some (- 1), bk, pk, spin_unlock d w2)"
    using k wr E e2 by (simp add: ata_read_loop_step)
  finally have r: "ata_read env (Some d) slave lba (Some b) sectors w =
      Some (- 1, Some bk, spin_unlock d w2)"
    by (simp add: ata_read_setup [OF s])
  have c: "data_ins (trace (spin_unlock d w2)) = data_ins (trace w) + 256 * k"
    using quiet_data_ins [OF q] di
    by (simp add: he data_ins_def ata_setup_fields setup_events_def)
  have t: "trace (spin_unlock d w2) =
      trace w1 @ [Inb (bus (mem w d) + ATA_REG_STATUS) ?v, SpinUnlock d]"
    by (simp add: he bus1)
  have v: "?v AND ATA_STATUS_ERR \<noteq> 0" using e2 he(2) by simp
  have u: "\<not> spinlock (mem (spin_unlock d w2) d)" by simp
  from r c dr u t v show ?thesis by blast
qed

lemma ata_write_error_at:
  assumes s: "sectors \<le> 0xff" and k: "k < unat sectors"
    and l: "ata_write_loop env d 0 k b 0 (ata_setup env d slave lba sectors ATA_CMD_WRITE_SECTORS w) =
            Some (None, pk, wk)"
    and wr: "ata_wait_ready env d wk = Some w1"
    and e: "fst (ata_has_err env d w1) \<noteq> 0"
  shows "\<exists>w' tr v.
     ata_write env (Some d) slave lba (Some b) sectors w = Some (- 1, w') \<and>
     data_outs (trace w') = data_outs (trace w) + 256 * k \<and>
     \<not> spinlock (mem w' d) \<and>
     trace w' = tr @ [Inb (bus (mem w d) + ATA_REG_STATUS) v, SpinUnlock d] \<and>
     v AND ATA_STATUS_ERR \<noteq> 0"
proof -
  let ?w0 = "ata_setup env d slave lba sectors ATA_CMD_WRITE_SECTORS w"
  let ?v = "fst (inb env (bus (mem w1 d) + ATA_REG_STATUS) w1)"
  have k0: "0 \<le> k" by simp
  from k have kn: "k \<le> unat sectors" by simp
  note ok = ata_write_loop_ok [OF l k0]
  from ok have st: "steady ?w0 wk" by blast
  from ok have di: "data_outs (trace wk) = data_outs (trace ?w0) + 256 * k"
    by simp
  have q: "quiet wk w1" by (rule quiet_wait_ready [OF wr])
  have bus1: "bus (mem w1 d) = bus (mem w d)"
    using quiet_bus [OF q, of d] steady_bus [OF st, of d] by (simp add: ata_setup_fields)
  obtain e2 w2 where E: "ata_has_err env d w1 = (e2, w2)" by (cases "ata_has_err env d w1")
  with e have e2: "e2 \<noteq> 0" by simp
  note he = ata_has_err_trace [of env d w1, unfolded E fst_conv snd_conv]
  have "ata_write_loop env d 0 (unat sectors) b 0 ?w0 = ata_write_loop env d k (unat sectors) b pk wk"
    by (rule ata_write_loop_extend [OF l k0 kn])
  also have "\<dots> = Some (Some (- 1), pk, spin_unlock d w2)"
    using k wr E e2 by (simp add: ata_write_loop_step)
  finally have r: "ata_write env (Some d) slave lba (Some b) sectors w =
      Some (- 1, spin_unlock d w2)"
    by (simp add: ata_write_setup [OF s])
  have c: "data_outs (trace (spin_unlock d w2)) = data_outs (trace w) + 256 * k"
    using quiet_data_outs [OF q] di
    by (simp add: he data_outs_def ata_setup_fields setup_events_def)
  have t: "trace (spin_unlock d w2) =
      trace w1 @ [Inb (bus (mem w d) + ATA_REG_STATUS) ?v, SpinUnlock d]"
    by (simp add: he bus1)
  have v: "?v AND ATA_STATUS_ERR \<noteq> 0" using e2 he(2) by simp
  have u: "\<not> spinlock (mem (spin_unlock d w2) d)" by simp
  from r c u t v show ?thesis by blast
qed

section \<open>Argument checks\<close>

text \<open>
  C3: when the device pointer is null, or the buffer pointer is null, or
  \<open>sectors > 255\<close>, \<open>ata_read\<close> and \<open>ata_write\<close> return -1 and leave the world as it
  was: the guard is not taken and no port is touched (the trace is unchanged).
\<close>

theorem ata_read_write_reject:
  "(dev = None \<or> buff = None \<or> sectors > 0xff) \<longrightarrow>
     ata_read env dev slave lba buff sectors w = Some (- 1, buff, w) \<and>
     ata_write env dev slave lba buff sectors w = Some (- 1, w)"
  by (auto simp: ata_read_def ata_write_def split: option.splits)

theorem ata_read_write_reject_witness:
  "ata_read (regs_env (\<lambda>p. 0)) None 0 0 (Some [0]) 1 (test_world ()) = Some (- 1, Some [0], test_world ()) \<and>
   ata_write (regs_env (\<lambda>p. 0)) None 0 0 (Some [0]) 1 (test_world ()) = Some (- 1, test_world ()) \<and>
   ata_read (regs_env (\<lambda>p. 0)) (Some 0) 0 0 None 1 (test_world ()) = Some (- 1, None, test_world ()) \<and>
   ata_write (regs_env (\<lambda>p. 0)) (Some 0) 0 0 None 1 (test_world ()) = Some (- 1, test_world ()) \<and>
   ata_read (regs_env (\<lambda>p. 0)) (Some 0) 0 0 (Some [0]) 256 (test_world ()) = Some (- 1, Some [0], test_world ()) \<and>
   ata_write (regs_env (\<lambda>p. 0)) (Some 0) 0 0 (Some [0]) 256 (test_world ()) = Some (- 1, test_world ())"
  using ata_read_write_reject [of None "Some [0]" 1 "regs_env (\<lambda>p. 0)" 0 0 "test_world ()"]
    ata_read_write_reject [of "Some 0" None 1 "regs_env (\<lambda>p. 0)" 0 0 "test_world ()"]
    ata_read_write_reject [of "Some 0" "Some [0]" 256 "regs_env (\<lambda>p. 0)" 0 0 "test_world ()"]
  by simp

section \<open>The interrupt hook\<close>

text \<open>
  C9: \<open>ata_irq\<close> dereferences the head of the device list without a check: with an
  empty list it is a null-pointer dereference, and it returns exactly when some device
  is registered.
\<close>

theorem ata_irq_null_deref:
  "(devices w = None \<longrightarrow> ata_irq w = Inl NullDeref) \<and>
   (devices w \<noteq> None \<longrightarrow> (\<exists>w'. ata_irq w = Inr w'))"
  by (auto simp: ata_irq_def)

theorem ata_irq_null_deref_witness:
  "ata_irq (test_world ()) = Inl NullDeref \<and>
   (\<exists>w'. ata_irq ((test_world ())\<lparr>devices := Some 0\<rparr>) = Inr w')"
  using ata_irq_null_deref [of "test_world ()"]
    ata_irq_null_deref [of "(test_world ())\<lparr>devices := Some 0\<rparr>"]
  by (simp add: test_world_def)

section \<open>The settle delay of the read path\<close>

lemma ata_read_loop_no_settle_eq:
  "ata_read_loop env dev i sectors buff pos w = ata_read_loop_no_settle env dev i sectors buff pos w"
proof (induction env dev i sectors buff pos w rule: ata_read_loop_no_settle.induct)
  case (1 env dev i sectors buff pos w)
  note unf = ata_read_loop.simps [of env dev i sectors buff pos w]
    ata_read_loop_no_settle.simps [of env dev i sectors buff pos w]
  show ?case
  proof (cases "i < sectors")
    case False
    then show ?thesis by (simp add: unf)
  next
    case True
    show ?thesis
    proof (cases "ata_wait_ready env dev w")
      case None
      then show ?thesis using True by (simp add: unf)
    next
      case (Some w1)
      obtain e w2 where E: "ata_has_err env dev w1 = (e, w2)"
        by (cases "ata_has_err env dev w1")
      show ?thesis
      proof (cases "e \<noteq> 0")
        case True
        then show ?thesis using \<open>i < sectors\<close> Some E by (simp add: unf)
      next
        case False
        show ?thesis
        proof (cases "ata_read_words env dev 0 buff pos w2")
          case None
          then show ?thesis using \<open>i < sectors\<close> Some E False by (simp add: unf)
        next
          case (Some r)
          obtain buff1 pos1 w3 where R: "r = (buff1, pos1, w3)" by (cases r)
          have "ata_read_loop env dev (i + 1) sectors buff1 pos1 w3 =
                ata_read_loop_no_settle env dev (i + 1) sectors buff1 pos1 w3"
            using "1.IH" [OF True \<open>ata_wait_ready env dev w = Some w1\<close> E [symmetric] False
                Some [unfolded R] refl refl] .
          then show ?thesis
            using \<open>i < sectors\<close> \<open>ata_wait_ready env dev w = Some w1\<close> E False Some R
            by (simp add: unf)
        qed
      qed
    qed
  qed
qed

text \<open>
  C7: the settle delay of \<open>ata_read\<close> (\<open>i >= sectors\<close> inside the loop bounded by
  \<open>i < sectors\<close>) never runs: on every input \<open>ata_read\<close> does exactly what it does
  with the branch and its four reads of the control port left out, trace included.
\<close>

theorem ata_read_settle_never_runs:
  "ata_read env dev slave lba buff sectors w = ata_read_no_settle env dev slave lba buff sectors w"
proof (cases dev)
  case None
  then show ?thesis by (simp add: ata_read_def ata_read_no_settle_def)
next
  case (Some d)
  note dev = this
  show ?thesis
  proof (cases buff)
    case None
    then show ?thesis using dev by (simp add: ata_read_def ata_read_no_settle_def)
  next
    case (Some b)
    show ?thesis
    proof (cases "sectors > 0xff")
      case True
      then show ?thesis using dev Some by (simp add: ata_read_def ata_read_no_settle_def)
    next
      case False
      then have "sectors \<le> 0xff" by simp
      then show ?thesis
        using dev Some False
        by (simp only: ata_read_setup ata_read_no_settle_def ata_read_loop_no_settle_eq
            option.case if_False)
    qed
  qed
qed

section \<open>Register setup\<close>

text \<open>
  C5: in every \<open>ata_read\<close> and \<open>ata_write\<close> call that passes the argument checks,
  the call first takes the guard and then writes, in this order: the drive register
  (\<open>0xe0\<close> when \<open>slave\<close> is non-zero, else \<open>0xf0\<close>, or'd with bits 24-27 of the
  lba), the sector count (low byte of \<open>sectors\<close>), the sector number (lba bits 0-7),
  cylinder low (bits 8-15), cylinder high (bits 16-23), and the command (\<open>0x20\<close> to
  read, \<open>0x30\<close> to write). The sector loop, which holds every data transfer of
  the call, starts in the world that has exactly these events appended, whether or
  not the call goes on to return; when it does return, everything else it did comes
  after these in the trace.
\<close>

theorem ata_setup_order:
  "sectors \<le> 0xff \<longrightarrow>
     (\<exists>w0. trace w0 = trace w @
           [SpinLock d,
            Outb (bus (mem w d) + ATA_REG_DRIVE)
              ((if slave \<noteq> 0 then 0xe0 else 0xf0) OR ucast (drop_bit 24 lba AND 0xf)),
            Outb (bus (mem w d) + ATA_REG_SECTOR_COUNT) (ucast sectors),
            Outb (bus (mem w d) + ATA_REG_SECTOR_NUMBER) (ucast lba),
            Outb (bus (mem w d) + ATA_REG_CYLINDER_LOW) (ucast (drop_bit 8 lba)),
            Outb (bus (mem w d) + ATA_REG_CYLINDER_HIGH) (ucast (drop_bit 16 lba)),
            Outb (bus (mem w d) + ATA_REG_COMMAND) ATA_CMD_READ_SECTORS] \<and>
         ata_read env (Some d) slave lba (Some b) sectors w =
           (case ata_read_loop env d 0 (unat sectors) b 0 w0 of
              None \<Rightarrow> None
            | Some (Some r, b1, pos, w8) \<Rightarrow> Some (r, Some b1, w8)
            | Some (None, b1, pos, w8) \<Rightarrow> Some (0, Some b1, spin_unlock d w8))) \<and>
     (\<exists>w0. trace w0 = trace w @
           [SpinLock d,
            Outb (bus (mem w d) + ATA_REG_DRIVE)
              ((if slave \<noteq> 0 then 0xe0 else 0xf0) OR ucast (drop_bit 24 lba AND 0xf)),
            Outb (bus (mem w d) + ATA_REG_SECTOR_COUNT) (ucast sectors),
            Outb (bus (mem w d) + ATA_REG_SECTOR_NUMBER) (ucast lba),
            Outb (bus (mem w d) + ATA_REG_CYLINDER_LOW) (ucast (drop_bit 8 lba)),
            Outb (bus (mem w d) + ATA_REG_CYLINDER_HIGH) (ucast (drop_bit 16 lba)),
            Outb (bus (mem w d) + ATA_REG_COMMAND) ATA_CMD_WRITE_SECTORS] \<and>
         ata_write env (Some d) slave lba (Some b) sectors w =
           (case ata_write_loop env d 0 (unat sectors) b 0 w0 of
              None \<Rightarrow> None
            | Some (Some r, pos, w8) \<Rightarrow> Some (r, w8)
            | Some (None, pos, w8) \<Rightarrow>
                Some (0, spin_unlock d (ata_command env (bus (mem w8 d))
                                          ATA_CMD_CACHE_FLUSH w8)))) \<and>
     (ata_read env (Some d) slave lba (Some b) sectors w = Some (r, b', w') \<longrightarrow>
        (\<exists>rest. trace w' = trace w @
           [SpinLock d,
            Outb (bus (mem w d) + ATA_REG_DRIVE)
              ((if slave \<noteq> 0 then 0xe0 else 0xf0) OR ucast (drop_bit 24 lba AND 0xf)),
            Outb (bus (mem w d) + ATA_REG_SECTOR_COUNT) (ucast sectors),
            Outb (bus (mem w d) + ATA_REG_SECTOR_NUMBER) (ucast lba),
            Outb (bus (mem w d) + ATA_REG_CYLINDER_LOW) (ucast (drop_bit 8 lba)),
            Outb (bus (mem w d) + ATA_REG_CYLINDER_HIGH) (ucast (drop_bit 16 lba)),
            Outb (bus (mem w d) + ATA_REG_COMMAND) ATA_CMD_READ_SECTORS] @ rest)) \<and>
     (ata_write env (Some d) slave lba (Some b) sectors w = Some (r2, w2) \<longrightarrow>
        (\<exists>rest. trace w2 = trace w @
           [SpinLock d,
            Outb (bus (mem w d) + ATA_REG_DRIVE)
              ((if slave \<noteq> 0 then 0xe0 else 0xf0) OR ucast (drop_bit 24 lba AND 0xf)),
            Outb (bus (mem w d) + ATA_REG_SECTOR_COUNT) (ucast sectors),
            Outb (bus (mem w d) + ATA_REG_SECTOR_NUMBER) (ucast lba),
            Outb (bus (mem w d) + ATA_REG_CYLINDER_LOW) (ucast (drop_bit 8 lba)),
            Outb (bus (mem w d) + ATA_REG_CYLINDER_HIGH) (ucast (drop_bit 16 lba)),
            Outb (bus (mem w d) + ATA_REG_COMMAND) ATA_CMD_WRITE_SECTORS] @ rest))"
proof
  assume s: "sectors \<le> 0xff"
  have 1: "trace (ata_setup env d slave lba sectors cmd w) = trace w @
           [SpinLock d,
            Outb (bus (mem w d) + ATA_REG_DRIVE)
              ((if slave \<noteq> 0 then 0xe0 else 0xf0) OR ucast (drop_bit 24 lba AND 0xf)),
            Outb (bus (mem w d) + ATA_REG_SECTOR_COUNT) (ucast sectors),
            Outb (bus (mem w d) + ATA_REG_SECTOR_NUMBER) (ucast lba),
            Outb (bus (mem w d) + ATA_REG_CYLINDER_LOW) (ucast (drop_bit 8 lba)),
            Outb (bus (mem w d) + ATA_REG_CYLINDER_HIGH) (ucast (drop_bit 16 lba)),
            Outb (bus (mem w d) + ATA_REG_COMMAND) cmd]" for cmd
    by (simp add: ata_setup_fields setup_events_def)
  have A: "\<exists>w0. trace w0 = trace w @
           [SpinLock d,
            Outb (bus (mem w d) + ATA_REG_DRIVE)
              ((if slave \<noteq> 0 then 0xe0 else 0xf0) OR ucast (drop_bit 24 lba AND 0xf)),
            Outb (bus (mem w d) + ATA_REG_SECTOR_COUNT) (ucast sectors),
            Outb (bus (mem w d) + ATA_REG_SECTOR_NUMBER) (ucast lba),
            Outb (bus (mem w d) + ATA_REG_CYLINDER_LOW) (ucast (drop_bit 8 lba)),
            Outb (bus (mem w d) + ATA_REG_CYLINDER_HIGH) (ucast (drop_bit 16 lba)),
            Outb (bus (mem w d) + ATA_REG_COMMAND) ATA_CMD_READ_SECTORS] \<and>
         ata_read env (Some d) slave lba (Some b) sectors w =
           (case ata_read_loop env d 0 (unat sectors) b 0 w0 of
              None \<Rightarrow> None
            | Some (Some r, b1, pos, w8) \<Rightarrow> Some (r, Some b1, w8)
            | Some (None, b1, pos, w8) \<Rightarrow> Some (0, Some b1, spin_unlock d w8))"
    using 1 [of ATA_CMD_READ_SECTORS] ata_read_setup [OF s, of env d slave lba b w]
    by (intro exI [where x = "ata_setup env d slave lba sectors ATA_CMD_READ_SECTORS w"] conjI)
  have B: "\<exists>w0. trace w0 = trace w @
           [SpinLock d,
            Outb (bus (mem w d) + ATA_REG_DRIVE)
              ((if slave \<noteq> 0 then 0xe0 else 0xf0) OR ucast (drop_bit 24 lba AND 0xf)),
            Outb (bus (mem w d) + ATA_REG_SECTOR_COUNT) (ucast sectors),
            Outb (bus (mem w d) + ATA_REG_SECTOR_NUMBER) (ucast lba),
            Outb (bus (mem w d) + ATA_REG_CYLINDER_LOW) (ucast (drop_bit 8 lba)),
            Outb (bus (mem w d) + ATA_REG_CYLINDER_HIGH) (ucast (drop_bit 16 lba)),
            Outb (bus (mem w d) + ATA_REG_COMMAND) ATA_CMD_WRITE_SECTORS] \<and>
         ata_write env (Some d) slave lba (Some b) sectors w =
           (case ata_write_loop env d 0 (unat sectors) b 0 w0 of
              None \<Rightarrow> None
            | Some (Some r, pos, w8) \<Rightarrow> Some (r, w8)
            | Some (None, pos, w8) \<Rightarrow>
                Some (0, spin_unlock d (ata_command env (bus (mem w8 d))
                                          ATA_CMD_CACHE_FLUSH w8)))"
    using 1 [of ATA_CMD_WRITE_SECTORS] ata_write_setup [OF s, of env d slave lba b w]
    by (intro exI [where x = "ata_setup env d slave lba sectors ATA_CMD_WRITE_SECTORS w"] conjI)
  from A B
    ata_read_trace [OF s, of env d slave lba b w r b' w']
    ata_write_trace [OF s, of env d slave lba b w r2 w2]
  show "(\<exists>w0. trace w0 = trace w @
           [SpinLock d,
            Outb (bus (mem w d) + ATA_REG_DRIVE)
              ((if slave \<noteq> 0 then 0xe0 else 0xf0) OR ucast (drop_bit 24 lba AND 0xf)),
            Outb (bus (mem w d) + ATA_REG_SECTOR_COUNT) (ucast sectors),
            Outb (bus (mem w d) + ATA_REG_SECTOR_NUMBER) (ucast lba),
            Outb (bus (mem w d) + ATA_REG_CYLINDER_LOW) (ucast (drop_bit 8 lba)),
            Outb (bus (mem w d) + ATA_REG_CYLINDER_HIGH) (ucast (drop_bit 16 lba)),
            Outb (bus (mem w d) + ATA_REG_COMMAND) ATA_CMD_READ_SECTORS] \<and>
         ata_read env (Some d) slave lba (Some b) sectors w =
           (case ata_read_loop env d 0 (unat sectors) b 0 w0 of
              None \<Rightarrow> None
            | Some (Some r, b1, pos, w8) \<Rightarrow> Some (r, Some b1, w8)
            | Some (None, b1, pos, w8) \<Rightarrow> Some (0, Some b1, spin_unlock d w8))) \<and>
     (\<exists>w0. trace w0 = trace w @
           [SpinLock d,
            Outb (bus (mem w d) + ATA_REG_DRIVE)
              ((if slave \<noteq> 0 then 0xe0 else 0xf0) OR ucast (drop_bit 24 lba AND 0xf)),
            Outb (bus (mem w d) + ATA_REG_SECTOR_COUNT) (ucast sectors),
            Outb (bus (mem w d) + ATA_REG_SECTOR_NUMBER) (ucast lba),
            Outb (bus (mem w d) + ATA_REG_CYLINDER_LOW) (ucast (drop_bit 8 lba)),
            Outb (bus (mem w d) + ATA_REG_CYLINDER_HIGH) (ucast (drop_bit 16 lba)),
            Outb (bus (mem w d) + ATA_REG_COMMAND) ATA_CMD_WRITE_SECTORS] \<and>
         ata_write env (Some d) slave lba (Some b) sectors w =
           (case ata_write_loop env d 0 (unat sectors) b 0 w0 of
              None \<Rightarrow> None
            | Some (Some r, pos, w8) \<Rightarrow> Some (r, w8)
            | Some (None, pos, w8) \<Rightarrow>
                Some (0, spin_unlock d (ata_command env (bus (mem w8 d))
                                          ATA_CMD_CACHE_FLUSH w8)))) \<and>
     (ata_read env (Some d) slave lba (Some b) sectors w = Some (r, b', w') \<longrightarrow>
        (\<exists>rest. trace w' = trace w @
           [SpinLock d,
            Outb (bus (mem w d) + ATA_REG_DRIVE)
              ((if slave \<noteq> 0 then 0xe0 else 0xf0) OR ucast (drop_bit 24 lba AND 0xf)),
            Outb (bus (mem w d) + ATA_REG_SECTOR_COUNT) (ucast sectors),
            Outb (bus (mem w d) + ATA_REG_SECTOR_NUMBER) (ucast lba),
            Outb (bus (mem w d) + ATA_REG_CYLINDER_LOW) (ucast (drop_bit 8 lba)),
            Outb (bus (mem w d) + ATA_REG_CYLINDER_HIGH) (ucast (drop_bit 16 lba)),
            Outb (bus (mem w d) + ATA_REG_COMMAND) ATA_CMD_READ_SECTORS] @ rest)) \<and>
     (ata_write env (Some d) slave lba (Some b) sectors w = Some (r2, w2) \<longrightarrow>
        (\<exists>rest. trace w2 = trace w @
           [SpinLock d,
            Outb (bus (mem w d) + ATA_REG_DRIVE)
              ((if slave \<noteq> 0 then 0xe0 else 0xf0) OR ucast (drop_bit 24 lba AND 0xf)),
            Outb (bus (mem w d) + ATA_REG_SECTOR_COUNT) (ucast sectors),
            Outb (bus (mem w d) + ATA_REG_SECTOR_NUMBER) (ucast lba),
            Outb (bus (mem w d) + ATA_REG_CYLINDER_LOW) (ucast (drop_bit 8 lba)),
            Outb (bus (mem w d) + ATA_REG_CYLINDER_HIGH) (ucast (drop_bit 16 lba)),
            Outb (bus (mem w d) + ATA_REG_COMMAND) ATA_CMD_WRITE_SECTORS] @ rest))"
    unfolding setup_events_def by blast
qed

theorem ata_setup_order_witness:
  "(1::u32) \<le> 0xff \<and>
   (\<exists>b' w' rest.
      ata_read (sim_env ATA_PRIMARY_BUS) (Some 0) 1 0x1234567 (Some (replicate 256 0)) 1
        (test_world (sim_disk0 (\<lambda>s. False))) = Some (0, b', w') \<and>
      trace w' =
        [SpinLock 0, Outb 0x1f6 0xe1, Outb 0x1f2 1, Outb 0x1f3 0x67, Outb 0x1f4 0x45,
         Outb 0x1f5 0x23, Outb 0x1f7 0x20] @ rest) \<and>
   (\<exists>w' rest.
      ata_write (sim_env ATA_PRIMARY_BUS) (Some 0) 0 0x1234567 (Some (replicate 256 0)) 1
        (test_world (sim_disk0 (\<lambda>s. False))) = Some (0, w') \<and>
      trace w' =
        [SpinLock 0, Outb 0x1f6 0xf1, Outb 0x1f2 1, Outb 0x1f3 0x67, Outb 0x1f4 0x45,
         Outb 0x1f5 0x23, Outb 0x1f7 0x30] @ rest)"
proof -
  let ?W = "test_world (sim_disk0 (\<lambda>s. False))"
  have 1: "(0::u32) < 1" and 2: "(1::u32) \<le> 0xff" by simp_all
  have 4: "length (replicate 256 (0::u16)) = 256 * unat (1::u32)" by simp
  have 5: "bus (mem ?W 0) = ATA_PRIMARY_BUS" by simp
  have 6: "\<forall>s. \<not> bad (hw ?W) s" by simp
  from sim_read [OF 1 2 4 5 6 refl, of 1 "0x1234567"] obtain b' w' where
    r: "ata_read (sim_env ATA_PRIMARY_BUS) (Some 0) 1 0x1234567 (Some (replicate 256 0)) 1 ?W =
          Some (0, b', w')" by blast
  from sim_write [OF 1 2 4 5 6 refl, of 0 "0x1234567"] obtain w2 where
    w: "ata_write (sim_env ATA_PRIMARY_BUS) (Some 0) 0 0x1234567 (Some (replicate 256 0)) 1 ?W =
          Some (0, w2)" by blast
  note defs = ATA_PRIMARY_BUS_def ATA_REG_DRIVE_def ATA_REG_SECTOR_COUNT_def
    ATA_REG_SECTOR_NUMBER_def ATA_REG_CYLINDER_LOW_def ATA_REG_CYLINDER_HIGH_def
    ATA_REG_COMMAND_def ATA_CMD_READ_SECTORS_def ATA_CMD_WRITE_SECTORS_def
  from ata_setup_order [where sectors = 1 and env = "sim_env ATA_PRIMARY_BUS" and d = 0
      and slave = 1 and lba = "0x1234567" and b = "replicate 256 0" and w = ?W
      and r = 0 and b' = b' and w' = w', THEN mp, OF 2,
      THEN conjunct2, THEN conjunct2, THEN conjunct1, THEN mp, OF r]
  obtain rest1 where
    "trace w' = trace ?W @
           [SpinLock 0,
            Outb (bus (mem ?W 0) + ATA_REG_DRIVE)
              ((if (1::int) \<noteq> 0 then 0xe0 else 0xf0) OR
               ucast (drop_bit 24 (0x1234567::u32) AND 0xf)),
            Outb (bus (mem ?W 0) + ATA_REG_SECTOR_COUNT) (ucast (1::u32)),
            Outb (bus (mem ?W 0) + ATA_REG_SECTOR_NUMBER) (ucast (0x1234567::u32)),
            Outb (bus (mem ?W 0) + ATA_REG_CYLINDER_LOW) (ucast (drop_bit 8 (0x1234567::u32))),
            Outb (bus (mem ?W 0) + ATA_REG_CYLINDER_HIGH) (ucast (drop_bit 16 (0x1234567::u32))),
            Outb (bus (mem ?W 0) + ATA_REG_COMMAND) ATA_CMD_READ_SECTORS] @ rest1"
    by blast
  then have t1: "trace w' =
        [SpinLock 0, Outb 0x1f6 0xe1, Outb 0x1f2 1, Outb 0x1f3 0x67, Outb 0x1f4 0x45,
         Outb 0x1f5 0x23, Outb 0x1f7 0x20] @ rest1"
    by (simp add: defs)
  from ata_setup_order [where sectors = 1 and env = "sim_env ATA_PRIMARY_BUS" and d = 0
      and slave = 0 and lba = "0x1234567" and b = "replicate 256 0" and w = ?W
      and ?r2.0 = 0 and ?w2.0 = w2, THEN mp, OF 2,
      THEN conjunct2, THEN conjunct2, THEN conjunct2, THEN mp, OF w]
  obtain rest2 where
    "trace w2 = trace ?W @
           [SpinLock 0,
            Outb (bus (mem ?W 0) + ATA_REG_DRIVE)
              ((if (0::int) \<noteq> 0 then 0xe0 else 0xf0) OR
               ucast (drop_bit 24 (0x1234567::u32) AND 0xf)),
            Outb (bus (mem ?W 0) + ATA_REG_SECTOR_COUNT) (ucast (1::u32)),
            Outb (bus (mem ?W 0) + ATA_REG_SECTOR_NUMBER) (ucast (0x1234567::u32)),
            Outb (bus (mem ?W 0) + ATA_REG_CYLINDER_LOW) (ucast (drop_bit 8 (0x1234567::u32))),
            Outb (bus (mem ?W 0) + ATA_REG_CYLINDER_HIGH) (ucast (drop_bit 16 (0x1234567::u32))),
            Outb (bus (mem ?W 0) + ATA_REG_COMMAND) ATA_CMD_WRITE_SECTORS] @ rest2"
    by blast
  then have t2: "trace w2 =
        [SpinLock 0, Outb 0x1f6 0xf1, Outb 0x1f2 1, Outb 0x1f3 0x67, Outb 0x1f4 0x45,
         Outb 0x1f5 0x23, Outb 0x1f7 0x30] @ rest2"
    by (simp add: defs)
  from r w 2 t1 t2 show ?thesis by blast
qed

text \<open>
  C10: with \<open>sectors = 0\<close>, a device and a buffer, both calls return 0 after the
  full setup with a sector-count byte of 0 and no pass through the loop: no port is
  read, no data is transferred, the buffer is as it was; \<open>ata_write\<close> still sends the
  cache flush before it releases the guard.
\<close>

theorem ata_zero_sectors:
  "(\<exists>w'. ata_read env (Some d) slave lba (Some b) 0 w = Some (0, Some b, w') \<and>
      \<not> spinlock (mem w' d) \<and>
      trace w' = trace w @
        [SpinLock d,
         Outb (bus (mem w d) + ATA_REG_DRIVE)
           ((if slave \<noteq> 0 then 0xe0 else 0xf0) OR ucast (drop_bit 24 lba AND 0xf)),
         Outb (bus (mem w d) + ATA_REG_SECTOR_COUNT) 0,
         Outb (bus (mem w d) + ATA_REG_SECTOR_NUMBER) (ucast lba),
         Outb (bus (mem w d) + ATA_REG_CYLINDER_LOW) (ucast (drop_bit 8 lba)),
         Outb (bus (mem w d) + ATA_REG_CYLINDER_HIGH) (ucast (drop_bit 16 lba)),
         Outb (bus (mem w d) + ATA_REG_COMMAND) ATA_CMD_READ_SECTORS,
         SpinUnlock d]) \<and>
   (\<exists>w'. ata_write env (Some d) slave lba (Some b) 0 w = Some (0, w') \<and>
      \<not> spinlock (mem w' d) \<and>
      trace w' = trace w @
        [SpinLock d,
         Outb (bus (mem w d) + ATA_REG_DRIVE)
           ((if slave \<noteq> 0 then 0xe0 else 0xf0) OR ucast (drop_bit 24 lba AND 0xf)),
         Outb (bus (mem w d) + ATA_REG_SECTOR_COUNT) 0,
         Outb (bus (mem w d) + ATA_REG_SECTOR_NUMBER) (ucast lba),
         Outb (bus (mem w d) + ATA_REG_CYLINDER_LOW) (ucast (drop_bit 8 lba)),
         Outb (bus (mem w d) + ATA_REG_CYLINDER_HIGH) (ucast (drop_bit 16 lba)),
         Outb (bus (mem w d) + ATA_REG_COMMAND) ATA_CMD_WRITE_SECTORS,
         Outb (bus (mem w d) + ATA_REG_COMMAND) ATA_CMD_CACHE_FLUSH,
         SpinUnlock d])"
proof -
  have z: "(0::u32) \<le> 0xff" by simp
  have "ata_read env (Some d) slave lba (Some b) 0 w =
      Some (0, Some b, spin_unlock d (ata_setup env d slave lba 0 ATA_CMD_READ_SECTORS w))"
    by (simp add: ata_read_setup [OF z] ata_read_loop_done)
  moreover have "ata_write env (Some d) slave lba (Some b) 0 w =
      Some (0, spin_unlock d (ata_command env
        (bus (mem (ata_setup env d slave lba 0 ATA_CMD_WRITE_SECTORS w) d)) ATA_CMD_CACHE_FLUSH
        (ata_setup env d slave lba 0 ATA_CMD_WRITE_SECTORS w)))"
    by (simp add: ata_write_setup [OF z] ata_write_loop_done)
  ultimately show ?thesis
    by (simp add: ata_setup_fields setup_events_def)
qed

section \<open>Round trip on the disk double\<close>

text \<open>
  C1: on the disk double without bad sectors, for \<open>0 < sectors \<le> 255\<close>, any lba and
  slave flag and buffers of \<open>sectors * 256\<close> words, \<open>ata_write\<close> returns 0 after
  sending exactly the words of \<open>buf\<close>, in order, through the data register, and the
  \<open>ata_read\<close> that follows returns 0 after reading exactly those words back: the
  buffer read is \<open>buf\<close>.
\<close>

theorem ata_write_read_roundtrip:
  assumes "0 < sectors" and "sectors \<le> 0xff"
    and "length buf = 256 * unat sectors" and "length out = 256 * unat sectors"
    and "bus (mem w d) = base" and "\<forall>s. \<not> bad (hw w) s"
  shows "\<exists>w1 w2.
     ata_write (sim_env base) (Some d) slave lba (Some buf) sectors w = Some (0, w1) \<and>
     words_out (trace w1) = words_out (trace w) @ buf \<and>
     ata_read (sim_env base) (Some d) slave lba (Some out) sectors w1 = Some (0, Some buf, w2) \<and>
     words_in (trace w2) = words_in (trace w1) @ buf"
proof -
  let ?E = "sim_env base"
  define hW where "hW = hw (ata_setup ?E d slave lba sectors ATA_CMD_WRITE_SECTORS w)"
  from sim_write [OF assms(1,2,3,5,6) hW_def] obtain w1 where
    wr: "ata_write ?E (Some d) slave lba (Some buf) sectors w = Some (0, w1)" and
    wo: "words_out (trace w1) = words_out (trace w) @ buf" and
    b1: "bus (mem w1 d) = base" and bd: "bad (hw w1) = bad (hw w)" and
    md: "media (hw w1) (sim_sel hW) = store_words (media (hw w) (sim_sel hW)) (256 * sim_lba hW) buf"
    by blast
  define hR where "hR = hw (ata_setup ?E d slave lba sectors ATA_CMD_READ_SECTORS w1)"
  have ok1: "\<forall>s. \<not> bad (hw w1) s" using assms(6) bd by simp
  from sim_read [OF assms(1,2,4) b1 ok1 hR_def] obtain w2 where
    rd: "ata_read ?E (Some d) slave lba (Some out) sectors w1 =
       Some (0, Some (map (media (hw w1) (sim_sel hR))
                       [256 * sim_lba hR ..< 256 * sim_lba hR + 256 * unat sectors]), w2)" and
    wi: "words_in (trace w2) = words_in (trace w1) @
       map (media (hw w1) (sim_sel hR))
         [256 * sim_lba hR ..< 256 * sim_lba hR + 256 * unat sectors]"
    by blast
  have cW: "ATA_CMD_WRITE_SECTORS = ATA_CMD_READ_SECTORS \<or>
    ATA_CMD_WRITE_SECTORS = ATA_CMD_WRITE_SECTORS" by simp
  have cR: "ATA_CMD_READ_SECTORS = ATA_CMD_READ_SECTORS \<or>
    ATA_CMD_READ_SECTORS = ATA_CMD_WRITE_SECTORS" by simp
  note fW = sim_setup_facts [OF assms(5,1,2) cW hW_def]
  note fR = sim_setup_facts [OF b1 assms(1,2) cR hR_def]
  have same: "sim_lba hR = sim_lba hW \<and> sim_sel hR = sim_sel hW"
    by (rule sim_regs_lba) (simp_all add: fW(6-9) fR(6-9))
  have "map (media (hw w1) (sim_sel hR))
          [256 * sim_lba hR ..< 256 * sim_lba hR + 256 * unat sectors] = buf"
    using store_words_map [of "media (hw w) (sim_sel hW)" "256 * sim_lba hW" buf]
    by (simp add: same md assms(3))
  with wr wo rd wi show ?thesis by simp
qed

theorem ata_write_read_roundtrip_witness:
  "\<exists>w1 w2.
     ata_write (sim_env ATA_PRIMARY_BUS) (Some 0) 0 5 (Some (replicate 256 0x1234)) 1
       (test_world (sim_disk0 (\<lambda>s. False))) = Some (0, w1) \<and>
     words_out (trace w1) =
       words_out (trace (test_world (sim_disk0 (\<lambda>s. False)))) @ replicate 256 0x1234 \<and>
     ata_read (sim_env ATA_PRIMARY_BUS) (Some 0) 0 5 (Some (replicate 256 0)) 1 w1 =
       Some (0, Some (replicate 256 0x1234), w2) \<and>
     words_in (trace w2) = words_in (trace w1) @ replicate 256 0x1234"
proof -
  have 1: "(0::u32) < 1" and 2: "(1::u32) \<le> 0xff" by simp_all
  have 3: "length (replicate 256 (0x1234::u16)) = 256 * unat (1::u32)"
    and 4: "length (replicate 256 (0::u16)) = 256 * unat (1::u32)" by simp_all
  have 5: "bus (mem (test_world (sim_disk0 (\<lambda>s. False))) 0) = ATA_PRIMARY_BUS" by simp
  have 6: "\<forall>s. \<not> bad (hw (test_world (sim_disk0 (\<lambda>s. False)))) s" by simp
  show ?thesis by (rule ata_write_read_roundtrip [OF 1 2 3 4 5 6])
qed

section \<open>An error during a transfer\<close>

text \<open>
  C4: let the first \<open>k\<close> sectors of an \<open>ata_read\<close> or \<open>ata_write\<close> of \<open>sectors\<close>
  sectors pass their check (the sector loop bounded by \<open>k\<close> runs through from the
  world after the setup), and let the status read after the wait for sector \<open>k\<close> show
  the error bit. Then the call returns -1; exactly \<open>256 * k\<close> words have gone through
  the data register, those of the first \<open>k\<close> sectors (the read buffer keeps them, and
  is untouched from word \<open>256 * k\<close> on); and the last two events of the call are that
  status read and the release of the guard, so nothing is transferred for sector \<open>k\<close>
  or any later one, and \<open>ata_write\<close> sends no cache flush.
\<close>

theorem ata_error_aborts:
  "(sectors \<le> 0xff \<and> k < unat sectors \<and>
    ata_read_loop env d 0 k b 0 (ata_setup env d slave lba sectors ATA_CMD_READ_SECTORS w) =
      Some (None, bk, pk, wk) \<and>
    ata_wait_ready env d wk = Some w1 \<and> fst (ata_has_err env d w1) \<noteq> 0 \<longrightarrow>
    (\<exists>w' tr v.
       ata_read env (Some d) slave lba (Some b) sectors w = Some (- 1, Some bk, w') \<and>
       data_ins (trace w') = data_ins (trace w) + 256 * k \<and>
       drop (256 * k) bk = drop (256 * k) b \<and>
       \<not> spinlock (mem w' d) \<and>
       trace w' = tr @ [Inb (bus (mem w d) + ATA_REG_STATUS) v, SpinUnlock d] \<and>
       v AND ATA_STATUS_ERR \<noteq> 0)) \<and>
   (sectors \<le> 0xff \<and> k < unat sectors \<and>
    ata_write_loop env d 0 k b 0 (ata_setup env d slave lba sectors ATA_CMD_WRITE_SECTORS w) =
      Some (None, qk, vk) \<and>
    ata_wait_ready env d vk = Some v1 \<and> fst (ata_has_err env d v1) \<noteq> 0 \<longrightarrow>
    (\<exists>w' tr v.
       ata_write env (Some d) slave lba (Some b) sectors w = Some (- 1, w') \<and>
       data_outs (trace w') = data_outs (trace w) + 256 * k \<and>
       \<not> spinlock (mem w' d) \<and>
       trace w' = tr @ [Inb (bus (mem w d) + ATA_REG_STATUS) v, SpinUnlock d] \<and>
       v AND ATA_STATUS_ERR \<noteq> 0))"
  using ata_read_error_at [of sectors k env d b slave lba w bk pk wk w1]
    ata_write_error_at [of sectors k env d b slave lba w qk vk v1]
  by blast

theorem ata_error_aborts_witness:
  "(\<exists>w'. ata_read (sim_env ATA_PRIMARY_BUS) (Some 0) 0 0 (Some (replicate 512 0xffff)) 2
            (test_world (sim_disk0 (\<lambda>s. s = 1))) =
          Some (- 1, Some (replicate 256 0 @ replicate 256 0xffff), w') \<and>
        data_ins (trace w') = 256 \<and> \<not> spinlock (mem w' 0)) \<and>
   (\<exists>w'. ata_write (sim_env ATA_PRIMARY_BUS) (Some 0) 0 0 (Some (replicate 512 0xffff)) 2
            (test_world (sim_disk0 (\<lambda>s. s = 1))) = Some (- 1, w') \<and>
        data_outs (trace w') = 256 \<and> \<not> spinlock (mem w' 0))"
proof -
  let ?E = "sim_env ATA_PRIMARY_BUS"
  let ?W = "test_world (sim_disk0 (\<lambda>s. s = 1))"
  let ?out = "replicate 512 (0xffff::u16)"
  have s: "(0::u32) < 2" "(2::u32) \<le> 0xff" by simp_all
  have b: "bus (mem ?W 0) = ATA_PRIMARY_BUS" by simp
  have k: "(1::nat) < unat (2::u32)" by simp
  have A: "\<exists>bk pk wk w1.
      ata_read_loop ?E 0 0 1 ?out 0 (ata_setup ?E 0 0 0 2 ATA_CMD_READ_SECTORS ?W) =
        Some (None, bk, pk, wk) \<and>
      bk = replicate 256 0 @ replicate 256 0xffff \<and>
      ata_wait_ready ?E 0 wk = Some w1 \<and> fst (ata_has_err ?E 0 w1) \<noteq> 0"
  proof -
    define w0 where "w0 = ata_setup ?E 0 0 0 2 ATA_CMD_READ_SECTORS ?W"
    define h0 where "h0 = hw w0"
    have c: "ATA_CMD_READ_SECTORS = ATA_CMD_READ_SECTORS \<or>
      ATA_CMD_READ_SECTORS = ATA_CMD_WRITE_SECTORS" by simp
    note f = sim_setup_facts [OF b s c h0_def [unfolded w0_def]]
    have lba: "sim_lba h0 = 0" by (simp add: sim_lba_def f(6-9))
    have f1: "mode h0 = Reading" "remaining h0 = 512" "cursor h0 = 0"
      "bad h0 = (\<lambda>s. s = 1)" "media h0 = (\<lambda>s a. 0)"
      using f(1-5) lba by simp_all
    have b0: "bus (mem w0 0) = ATA_PRIMARY_BUS" by (simp add: w0_def ata_setup_fields)
    have p: "bus (mem w0 0) = ATA_PRIMARY_BUS" "mode (hw w0) = Reading"
      "256 * 1 \<le> remaining (hw w0)" "0 + 256 * 1 \<le> length ?out"
      "\<forall>t<1. \<not> bad (hw w0) ((cursor (hw w0) + 256 * t) div 256)"
      using b0 f1 by (simp_all add: h0_def [symmetric])
    from sim_read_loop [OF p, of 0] obtain wk where
      l: "ata_read_loop ?E 0 0 (0 + 1) ?out 0 w0 =
         Some (None,
           take 0 ?out @ map (media (hw w0) (sim_sel (hw w0)))
              [cursor (hw w0) ..< cursor (hw w0) + 256 * 1] @ drop (0 + 256 * 1) ?out,
           0 + 256 * 1, wk)" and
      hwk: "hw wk = (hw w0)\<lparr>cursor := cursor (hw w0) + 256 * 1,
               remaining := remaining (hw w0) - 256 * 1\<rparr>"
      by blast
    have bk: "take 0 ?out @ map (media (hw w0) (sim_sel (hw w0)))
              [cursor (hw w0) ..< cursor (hw w0) + 256 * 1] @ drop (0 + 256 * 1) ?out =
        replicate 256 0 @ replicate 256 0xffff"
      by (simp add: h0_def [symmetric] f1 map_replicate_const)
    from l have l': "ata_read_loop ?E 0 0 1 ?out 0 w0 =
        Some (None, replicate 256 0 @ replicate 256 0xffff, 0 + 256 * 1, wk)"
      unfolding bk by simp
    have z: "(0::nat) \<le> 1" by simp
    from ata_read_loop_ok [OF l' z] have "steady w0 wk" by blast
    then have bk1: "bus (mem wk 0) = ATA_PRIMARY_BUS" using b0 by (simp add: steady_bus)
    note wr = sim_wait_ready [OF bk1]
    define w1 where "w1 = wk\<lparr>mem := (mem wk)(0 := (mem wk 0)\<lparr>wait_irq := 0\<rparr>),
             trace := trace wk @ [Inb (ATA_PRIMARY_BUS + ATA_REG_STATUS) (sim_status (hw wk))],
             stores := stores wk @
               [\<lparr>st_site = In_ata_wait_ready, st_dev = 0, st_val = 1,
                 st_guard = spinlock (mem wk 0)\<rparr>,
                \<lparr>st_site = In_ata_wait_ready, st_dev = 0, st_val = 0,
                 st_guard = spinlock (mem wk 0)\<rparr>]\<rparr>"
    have b1: "bus (mem w1 0) = ATA_PRIMARY_BUS" using bk1 by (simp add: w1_def)
    have hw1: "hw w1 = h0\<lparr>cursor := 256, remaining := 256\<rparr>"
      by (simp add: w1_def hwk h0_def [symmetric] f1)
    have "sim_active (hw w1) \<and> bad (hw w1) (cursor (hw w1) div 256)"
      by (simp add: hw1 sim_active_def f1)
    then have "sim_status (hw w1) AND ATA_STATUS_ERR \<noteq> 0"
      by (simp only: sim_status_err)
    then have e: "fst (ata_has_err ?E 0 w1) \<noteq> 0"
      by (simp add: sim_has_err [OF b1])
    from l' wr e show ?thesis
      unfolding w0_def w1_def by blast
  qed
  have B: "\<exists>pk wk w1.
      ata_write_loop ?E 0 0 1 ?out 0 (ata_setup ?E 0 0 0 2 ATA_CMD_WRITE_SECTORS ?W) =
        Some (None, pk, wk) \<and>
      ata_wait_ready ?E 0 wk = Some w1 \<and> fst (ata_has_err ?E 0 w1) \<noteq> 0"
  proof -
    define w0 where "w0 = ata_setup ?E 0 0 0 2 ATA_CMD_WRITE_SECTORS ?W"
    define h0 where "h0 = hw w0"
    have c: "ATA_CMD_WRITE_SECTORS = ATA_CMD_READ_SECTORS \<or>
      ATA_CMD_WRITE_SECTORS = ATA_CMD_WRITE_SECTORS" by simp
    note f = sim_setup_facts [OF b s c h0_def [unfolded w0_def]]
    have lba: "sim_lba h0 = 0" by (simp add: sim_lba_def f(6-9))
    have f1: "mode h0 = Writing" "remaining h0 = 512" "cursor h0 = 0"
      "bad h0 = (\<lambda>s. s = 1)"
      using f(1-5) lba by (simp_all add: ATA_CMD_READ_SECTORS_def ATA_CMD_WRITE_SECTORS_def)
    have b0: "bus (mem w0 0) = ATA_PRIMARY_BUS" by (simp add: w0_def ata_setup_fields)
    have p: "bus (mem w0 0) = ATA_PRIMARY_BUS" "mode (hw w0) = Writing"
      "256 * 1 \<le> remaining (hw w0)" "0 + 256 * 1 \<le> length ?out"
      "\<forall>t<1. \<not> bad (hw w0) ((cursor (hw w0) + 256 * t) div 256)"
      using b0 f1 by (simp_all add: h0_def [symmetric])
    from sim_write_loop [OF p, of 0] obtain wk where
      l: "ata_write_loop ?E 0 0 (0 + 1) ?out 0 w0 = Some (None, 0 + 256 * 1, wk)" and
      hwk: "hw wk = (hw w0)\<lparr>media := (media (hw w0))(sim_sel (hw w0) :=
                 store_words (media (hw w0) (sim_sel (hw w0))) (cursor (hw w0))
                   (take (256 * 1) (drop 0 ?out))),
               cursor := cursor (hw w0) + 256 * 1,
               remaining := remaining (hw w0) - 256 * 1\<rparr>"
      by blast
    from l have l': "ata_write_loop ?E 0 0 1 ?out 0 w0 = Some (None, 0 + 256 * 1, wk)"
      by simp
    have z: "(0::nat) \<le> 1" by simp
    from ata_write_loop_ok [OF l' z] have "steady w0 wk" by blast
    then have bk1: "bus (mem wk 0) = ATA_PRIMARY_BUS" using b0 by (simp add: steady_bus)
    note wr = sim_wait_ready [OF bk1]
    define w1 where "w1 = wk\<lparr>mem := (mem wk)(0 := (mem wk 0)\<lparr>wait_irq := 0\<rparr>),
             trace := trace wk @ [Inb (ATA_PRIMARY_BUS + ATA_REG_STATUS) (sim_status (hw wk))],
             stores := stores wk @
               [\<lparr>st_site = In_ata_wait_ready, st_dev = 0, st_val = 1,
                 st_guard = spinlock (mem wk 0)\<rparr>,
                \<lparr>st_site = In_ata_wait_ready, st_dev = 0, st_val = 0,
                 st_guard = spinlock (mem wk 0)\<rparr>]\<rparr>"
    have b1: "bus (mem w1 0) = ATA_PRIMARY_BUS" using bk1 by (simp add: w1_def)
    have "mode (hw w1) = Writing" "remaining (hw w1) = 256" "cursor (hw w1) = 256"
      "bad (hw w1) = (\<lambda>s. s = 1)"
      by (simp_all add: w1_def hwk h0_def [symmetric] f1)
    then have "sim_active (hw w1) \<and> bad (hw w1) (cursor (hw w1) div 256)"
      by (simp add: sim_active_def)
    then have "sim_status (hw w1) AND ATA_STATUS_ERR \<noteq> 0"
      by (simp only: sim_status_err)
    then have e: "fst (ata_has_err ?E 0 w1) \<noteq> 0"
      by (simp add: sim_has_err [OF b1])
    from l' wr e show ?thesis
      unfolding w0_def w1_def by blast
  qed
  from A obtain pk wk w1 where
    a: "ata_read_loop ?E 0 0 1 ?out 0 (ata_setup ?E 0 0 0 2 ATA_CMD_READ_SECTORS ?W) =
        Some (None, replicate 256 0 @ replicate 256 0xffff, pk, wk)"
      "ata_wait_ready ?E 0 wk = Some w1" "fst (ata_has_err ?E 0 w1) \<noteq> 0"
    by blast
  from B obtain qk vk v1 where
    b': "ata_write_loop ?E 0 0 1 ?out 0 (ata_setup ?E 0 0 0 2 ATA_CMD_WRITE_SECTORS ?W) =
        Some (None, qk, vk)"
      "ata_wait_ready ?E 0 vk = Some v1" "fst (ata_has_err ?E 0 v1) \<noteq> 0"
    by blast
  note t = ata_error_aborts [of 2 1 ?E 0 ?out 0 0 ?W "replicate 256 0 @ replicate 256 0xffff"
      pk wk w1 qk vk v1]
  from t s(2) k a have
    "\<exists>w'. ata_read ?E (Some 0) 0 0 (Some ?out) 2 ?W =
          Some (- 1, Some (replicate 256 0 @ replicate 256 0xffff), w') \<and>
        data_ins (trace w') = data_ins (trace ?W) + 256 * 1 \<and> \<not> spinlock (mem w' 0)"
    by blast
  moreover from t s(2) k b' have
    "\<exists>w'. ata_write ?E (Some 0) 0 0 (Some ?out) 2 ?W = Some (- 1, w') \<and>
        data_outs (trace w') = data_outs (trace ?W) + 256 * 1 \<and> \<not> spinlock (mem w' 0)"
    by blast
  ultimately show ?thesis
    by (simp add: data_ins_def data_outs_def)
qed

section \<open>The type probe\<close>

lemma ata_wait_from_fields:
  "mem (ata_wait_from env p i w) = mem w \<and> devices (ata_wait_from env p i w) = devices w \<and>
   devices_cache (ata_wait_from env p i w) = devices_cache w \<and>
   stores (ata_wait_from env p i w) = stores w"
proof (induction env p i w rule: ata_wait_from.induct)
  case (1 env port i w)
  show ?case
  proof (cases "i < 4")
    case True
    with 1 show ?thesis by (simp add: ata_wait_from.simps [of env port i])
  next
    case False
    then show ?thesis by (simp add: ata_wait_from.simps [of env port i])
  qed
qed

lemma ata_wait_fields [simp]:
  "mem (ata_wait env p w) = mem w" "devices (ata_wait env p w) = devices w"
  "devices_cache (ata_wait env p w) = devices_cache w"
  "stores (ata_wait env p w) = stores w"
  by (simp_all add: ata_wait_def ata_wait_from_fields)

lemma ata_select_drive_fields [simp]:
  "mem (ata_select_drive env b s w) = mem w" "devices (ata_select_drive env b s w) = devices w"
  "devices_cache (ata_select_drive env b s w) = devices_cache w"
  "trace (ata_select_drive env b s w) =
     trace w @ [Outb (b + ATA_REG_DRIVE) (if s \<noteq> 0 then 0xa0 else 0xb0)]"
  "stores (ata_select_drive env b s w) = stores w"
  by (simp_all add: ata_select_drive_def)

lemma ata_reset_fields [simp]:
  "mem (ata_reset env dev w) = mem w" "devices (ata_reset env dev w) = devices w"
  "devices_cache (ata_reset env dev w) = devices_cache w"
  "stores (ata_reset env dev w) = stores w"
  by (simp_all add: ata_reset_def Let_def inb_def outb_def split: option.split prod.split)

lemma ata_settled_fields [simp]:
  "mem (ata_settled env d slave w) = mem w"
  "stores (ata_settled env d slave w) = stores w"
  by (simp_all add: ata_settled_def Let_def)

lemma ata_get_type_settled:
  "ata_get_type env (Some d) slave w =
     (case inb env (bus (mem w d) + ATA_REG_CYLINDER_LOW) (ata_settled env d slave w) of
        (cl, w4) \<Rightarrow>
          (case inb env (bus (mem w d) + ATA_REG_CYLINDER_HIGH) w4 of
             (ch, w5) \<Rightarrow>
               if cl = 0 \<and> ch = 0 then (ATA_TYPE_PATA, w5)
               else if cl = 0x14 \<and> ch = 0xeb then (ATA_TYPE_PATAPI, w5)
               else if cl = 0x3c \<and> ch = 0xc3 then (ATA_TYPE_SATA, w5)
               else if cl = 0x69 \<and> ch = 0x96 then (ATA_TYPE_SATAPI, w5)
               else (ATA_TYPE_UNKNOWN, w5)))"
proof -
  have m: "mem (snd (inb env p (ata_settled env d slave w))) = mem w" for p
    by simp
  show ?thesis
    unfolding ata_get_type_def ata_settled_def [symmetric] option.case Let_def
    apply (simp only: ata_reset_fields ata_select_drive_fields ata_wait_fields)
    apply (subst ata_settled_def [symmetric, unfolded Let_def ata_reset_fields ata_select_drive_fields])+
    apply (cases "inb env (bus (mem w d) + ATA_REG_CYLINDER_LOW) (ata_settled env d slave w)")
    using m [of "bus (mem w d) + ATA_REG_CYLINDER_LOW"]
    apply simp
    done
qed

lemma regs_env_inb [simp]: "fst (inb (regs_env f) p w) = f p"
  by (simp add: inb_def regs_env_def)

text \<open>
  C2: \<open>ata_get_type\<close> returns Unknown for a null device and leaves the world as it
  was (no port access). For a device, with \<open>cl\<close> and \<open>ch\<close> the values read from the
  cylinder-low and cylinder-high registers after the reset, the drive select and the
  settle delay, it returns PATA for 0x00/0x00, PATAPI for 0x14/0xEB, SATA for 0x3C/0xC3,
  SATAPI for 0x69/0x96, and Unknown for every other pair.
\<close>

theorem ata_get_type_classifies:
  "ata_get_type env None slave w = (ATA_TYPE_UNKNOWN, w) \<and>
   (let w3 = ata_settled env d slave w;
        cl = fst (inb env (bus (mem w d) + ATA_REG_CYLINDER_LOW) w3);
        ch = fst (inb env (bus (mem w d) + ATA_REG_CYLINDER_HIGH)
               (snd (inb env (bus (mem w d) + ATA_REG_CYLINDER_LOW) w3)));
        r = fst (ata_get_type env (Some d) slave w)
    in (cl = 0x00 \<and> ch = 0x00 \<longrightarrow> r = ATA_TYPE_PATA) \<and>
       (cl = 0x14 \<and> ch = 0xeb \<longrightarrow> r = ATA_TYPE_PATAPI) \<and>
       (cl = 0x3c \<and> ch = 0xc3 \<longrightarrow> r = ATA_TYPE_SATA) \<and>
       (cl = 0x69 \<and> ch = 0x96 \<longrightarrow> r = ATA_TYPE_SATAPI) \<and>
       ((cl, ch) \<notin> {(0x00, 0x00), (0x14, 0xeb), (0x3c, 0xc3), (0x69, 0x96)} \<longrightarrow>
          r = ATA_TYPE_UNKNOWN))"
proof -
  have n: "ata_get_type env None slave w = (ATA_TYPE_UNKNOWN, w)"
    by (simp add: ata_get_type_def)
  show ?thesis
    unfolding Let_def ata_get_type_settled
    using n by (auto split: prod.splits)
qed

theorem ata_get_type_classifies_witness:
  "ata_get_type (regs_env (\<lambda>p. 0)) None 0 (test_world ()) = (ATA_TYPE_UNKNOWN, test_world ()) \<and>
   fst (ata_get_type (regs_env (\<lambda>p. 0)) (Some 0) 0 (test_world ())) = ATA_TYPE_PATA \<and>
   fst (ata_get_type (regs_env (\<lambda>p. if p = 0x1f4 then 0x14 else if p = 0x1f5 then 0xeb else 0))
          (Some 0) 1 (test_world ())) = ATA_TYPE_PATAPI \<and>
   fst (ata_get_type (regs_env (\<lambda>p. if p = 0x1f4 then 0x3c else if p = 0x1f5 then 0xc3 else 0))
          (Some 0) 0 (test_world ())) = ATA_TYPE_SATA \<and>
   fst (ata_get_type (regs_env (\<lambda>p. if p = 0x1f4 then 0x69 else if p = 0x1f5 then 0x96 else 0))
          (Some 0) 1 (test_world ())) = ATA_TYPE_SATAPI \<and>
   fst (ata_get_type (regs_env (\<lambda>p. if p = 0x1f4 then 0x14 else if p = 0x1f5 then 0x96 else 0))
          (Some 0) 0 (test_world ())) = ATA_TYPE_UNKNOWN"
  using ata_get_type_classifies [of "regs_env (\<lambda>p. 0)" 0 "test_world ()" 0]
    ata_get_type_classifies
      [of "regs_env (\<lambda>p. if p = 0x1f4 then 0x14 else if p = 0x1f5 then 0xeb else 0)" 1
        "test_world ()" 0]
    ata_get_type_classifies
      [of "regs_env (\<lambda>p. if p = 0x1f4 then 0x3c else if p = 0x1f5 then 0xc3 else 0)" 0
        "test_world ()" 0]
    ata_get_type_classifies
      [of "regs_env (\<lambda>p. if p = 0x1f4 then 0x69 else if p = 0x1f5 then 0x96 else 0)" 1
        "test_world ()" 0]
    ata_get_type_classifies
      [of "regs_env (\<lambda>p. if p = 0x1f4 then 0x14 else if p = 0x1f5 then 0x96 else 0)" 0
        "test_world ()" 0]
  by (simp add: Let_def ATA_PRIMARY_BUS_def ATA_REG_CYLINDER_LOW_def ATA_REG_CYLINDER_HIGH_def)

section \<open>Registration\<close>

lemmas ata_identify_busy_loop_induct =
  ata_identify_busy_loop.raw_induct [rotated 1, consumes 1, case_names step]

lemmas ata_identify_status_loop_induct =
  ata_identify_status_loop.raw_induct [rotated 1, consumes 1, case_names step]

lemma ata_is_busy_snd: "snd (ata_is_busy env b w) = snd (inb env (b + ATA_REG_STATUS) w)"
  by (simp add: ata_is_busy_def split: prod.split)

lemma ata_identify_busy_loop_fields:
  "ata_identify_busy_loop env b w = Some w' \<Longrightarrow>
     mem w' = mem w \<and> devices w' = devices w \<and> devices_cache w' = devices_cache w \<and> stores w' = stores w"
proof (induction env b w w' rule: ata_identify_busy_loop_induct)
  case (step loop env b w w')
  let ?w1 = "snd (ata_is_busy env b w)"
  have f: "mem ?w1 = mem w \<and> devices ?w1 = devices w \<and> devices_cache ?w1 = devices_cache w \<and> stores ?w1 = stores w"
    by (simp add: ata_is_busy_snd)
  show ?case
  proof (cases "fst (ata_is_busy env b w) \<noteq> 0")
    case True
    with step(2) have "loop env b ?w1 = Some w'" by (simp split: prod.splits)
    from step(1) [OF this] f show ?thesis by simp
  next
    case False
    with step(2) have "w' = ?w1" by (auto split: prod.splits)
    with f show ?thesis by simp
  qed
qed

lemma ata_identify_status_loop_fields:
  "ata_identify_status_loop env b w = Some r \<Longrightarrow>
     mem (snd r) = mem w \<and> devices (snd r) = devices w \<and>
     devices_cache (snd r) = devices_cache w \<and> stores (snd r) = stores w"
proof (induction env b w r rule: ata_identify_status_loop_induct)
  case (step loop env b w r)
  let ?s = "fst (inb env (b + ATA_REG_STATUS) w)"
  let ?w1 = "snd (inb env (b + ATA_REG_STATUS) w)"
  have f: "mem ?w1 = mem w \<and> devices ?w1 = devices w \<and> devices_cache ?w1 = devices_cache w \<and> stores ?w1 = stores w"
    by simp
  show ?case
  proof (cases "?s AND ATA_STATUS_ERR = 0 \<and> ?s AND ATA_STATUS_DRQ = 0")
    case True
    with step(2) have "loop env b ?w1 = Some r" by (simp split: prod.splits)
    from step(1) [OF this] f show ?thesis by simp
  next
    case False
    with step(2) have "r = (?s, ?w1)" by (auto split: prod.splits)
    with f show ?thesis by simp
  qed
qed

lemma ata_identify_data_fields:
  "mem (snd (ata_identify_data env b i init_data w)) = mem w \<and>
   devices (snd (ata_identify_data env b i init_data w)) = devices w \<and>
   devices_cache (snd (ata_identify_data env b i init_data w)) = devices_cache w \<and> stores (snd (ata_identify_data env b i init_data w)) = stores w"
proof (induction env b i init_data w rule: ata_identify_data.induct)
  case (1 env b i init_data w)
  show ?case
  proof (cases "i < 256")
    case True
    obtain v w1 where I: "inw env (b + ATA_REG_DATA) w = (v, w1)"
      by (cases "inw env (b + ATA_REG_DATA) w")
    then have "w1 = snd (inw env (b + ATA_REG_DATA) w)" by simp
    then have f: "mem w1 = mem w" "devices w1 = devices w" "devices_cache w1 = devices_cache w \<and> stores w1 = stores w"
      by simp_all
    from "1.IH" [OF True I [symmetric]] True I f show ?thesis
      by (simp add: ata_identify_data.simps [of env b i])
  next
    case False
    then show ?thesis by (simp add: ata_identify_data.simps [of env b i])
  qed
qed

lemma ata_identify_fields:
  assumes "ata_identify env b slave init_data w = Some (r, data, w')"
  shows "mem w' = mem w \<and> devices w' = devices w \<and> devices_cache w' = devices_cache w \<and> stores w' = stores w"
proof -
  define w6 where "w6 = ata_command env b ATA_CMD_IDENTIFY
      (outb env (b + ATA_REG_CYLINDER_HIGH) 0x0
        (outb env (b + ATA_REG_CYLINDER_LOW) 0x0
          (outb env (b + ATA_REG_SECTOR_NUMBER) 0x0
            (outb env (b + ATA_REG_SECTOR_COUNT) 0x0 (ata_select_drive env b slave w)))))"
  have f6: "mem w6 = mem w \<and> devices w6 = devices w \<and> devices_cache w6 = devices_cache w \<and> stores w6 = stores w"
    by (simp add: w6_def)
  let ?w7 = "snd (inb env (b + ATA_REG_STATUS) w6)"
  let ?st = "fst (inb env (b + ATA_REG_STATUS) w6)"
  have f7: "mem ?w7 = mem w \<and> devices ?w7 = devices w \<and> devices_cache ?w7 = devices_cache w \<and> stores ?w7 = stores w"
    using f6 by simp
  have unf: "ata_identify env b slave init_data w =
      (if ?st = 0 then Some (0, init_data, ?w7)
       else
         (case ata_identify_busy_loop env b ?w7 of
            None \<Rightarrow> None
          | Some w8 \<Rightarrow>
              (case inb env (b + ATA_REG_CYLINDER_LOW) w8 of
                 (cl, w9) \<Rightarrow>
                   if cl \<noteq> 0 then Some (0, init_data, w9)
                   else
                     (case inb env (b + ATA_REG_CYLINDER_HIGH) w9 of
                        (ch, w10) \<Rightarrow>
                          if ch \<noteq> 0 then Some (0, init_data, w10)
                          else
                            (case ata_identify_status_loop env b w10 of
                               None \<Rightarrow> None
                             | Some (status1, w11) \<Rightarrow>
                                 if status1 AND ATA_STATUS_ERR \<noteq> 0
                                 then Some (0, init_data, w11)
                                 else
                                   (case ata_identify_data env b 0 init_data w11 of
                                      (data, w12) \<Rightarrow> Some (1, data, w12)))))))"
    unfolding ata_identify_def Let_def w6_def by (simp split: prod.split)
  show ?thesis
  proof (cases "?st = 0")
    case True
    with assms unf f7 show ?thesis by simp
  next
    case False
    with assms unf obtain w8 where b8: "ata_identify_busy_loop env b ?w7 = Some w8"
      by (auto split: option.splits)
    from ata_identify_busy_loop_fields [OF b8] f7
    have f8: "mem w8 = mem w \<and> devices w8 = devices w \<and> devices_cache w8 = devices_cache w \<and> stores w8 = stores w"
      by simp
    let ?w9 = "snd (inb env (b + ATA_REG_CYLINDER_LOW) w8)"
    let ?cl = "fst (inb env (b + ATA_REG_CYLINDER_LOW) w8)"
    let ?w10 = "snd (inb env (b + ATA_REG_CYLINDER_HIGH) ?w9)"
    let ?ch = "fst (inb env (b + ATA_REG_CYLINDER_HIGH) ?w9)"
    have f9: "mem ?w9 = mem w \<and> devices ?w9 = devices w \<and> devices_cache ?w9 = devices_cache w \<and> stores ?w9 = stores w"
      using f8 by simp
    have f10: "mem ?w10 = mem w \<and> devices ?w10 = devices w \<and>
        devices_cache ?w10 = devices_cache w \<and> stores ?w10 = stores w"
      using f9 by simp
    have unf2: "ata_identify env b slave init_data w =
      (if ?cl \<noteq> 0 then Some (0, init_data, ?w9)
       else if ?ch \<noteq> 0 then Some (0, init_data, ?w10)
       else
         (case ata_identify_status_loop env b ?w10 of
            None \<Rightarrow> None
          | Some (status1, w11) \<Rightarrow>
              if status1 AND ATA_STATUS_ERR \<noteq> 0
              then Some (0, init_data, w11)
              else
                (case ata_identify_data env b 0 init_data w11 of
                   (data, w12) \<Rightarrow> Some (1, data, w12))))"
      unfolding unf using False b8 by (simp split: prod.split)
    show ?thesis
    proof (cases "?cl \<noteq> 0 \<or> ?ch \<noteq> 0")
      case True
      with assms unf2 f9 f10 show ?thesis by (auto split: if_splits)
    next
      case False
      with assms unf2 obtain s1 w11 where
        s: "ata_identify_status_loop env b ?w10 = Some (s1, w11)"
        by (auto split: option.splits)
      from ata_identify_status_loop_fields [OF s] f10
      have f11: "mem w11 = mem w \<and> devices w11 = devices w \<and>
          devices_cache w11 = devices_cache w \<and> stores w11 = stores w"
        by simp
      show ?thesis
      proof (cases "s1 AND ATA_STATUS_ERR \<noteq> 0")
        case True
        with assms unf2 False s f11 show ?thesis by simp
      next
        case e: False
        with assms unf2 False s have "w' = snd (ata_identify_data env b 0 init_data w11)"
          by (auto split: prod.splits)
        with ata_identify_data_fields [of env b 0 init_data w11] f11 show ?thesis by simp
      qed
    qed
  qed
qed

lemma ata_init_device_alloc:
  assumes "devices_cache w = Some (a # slots)"
  shows "ata_init_device env b c w =
     (case ata_check_floating_bus env b
             (w\<lparr>devices_cache := Some slots,
                mem := (mem w)(a := zero_device\<lparr>bus := b, ctrl := c\<rparr>)\<rparr>) of
        (floating, w4) \<Rightarrow>
          if floating then
            Some (None, cache_free a (printf ''ATA floating bus detected\<newline>'' [] w4))
          else
            (case ata_identify env b 0 (replicate 256 0) w4 of
               None \<Rightarrow> None
             | Some (ok, init_data, w5) \<Rightarrow>
                 if ok = 0 then
                   Some (None, cache_free a (printf ''ATA identify failed\<newline>'' [] w5))
                 else
                   (let sectors = ata_lba28_sectors init_data;
                        w6 = (if sectors \<noteq> 0
                              then printf ''ATA LBA28 sectors: %u\<newline>'' [sectors] w5
                              else w5);
                        w7 = (if ata_supports_lba48 init_data \<noteq> 0
                              then printf ''ATA LBA48 supported\<newline>'' [] w6
                              else w6);
                        w8 = printf ''ATA disk size: %u bytes\<newline>''
                               [sectors * ATA_SECTOR_SIZE] w7;
                        w9 = printf ''ATA initialized!\<newline>'' [] w8
                    in Some (Some a, w9))))"
  using assms by (simp add: ata_init_device_def cache_alloc_def Let_def)

lemma cache_free_fields [simp]:
  "devices (cache_free a w) = devices w" "trace (cache_free a w) = trace w"
  "mem (cache_free a w) = mem w"
  "devices_cache (cache_free a w) = map_option ((#) a) (devices_cache w)"
  "stores (cache_free a w) = stores w"
  by (simp_all add: cache_free_def)

lemma printf_fields [simp]:
  "devices (printf f xs w) = devices w" "trace (printf f xs w) = trace w @ [Printf f xs]"
  "mem (printf f xs w) = mem w" "devices_cache (printf f xs w) = devices_cache w"
  "stores (printf f xs w) = stores w"
  by (simp_all add: printf_def)

lemma regs_env_fields [simp]:
  "inb_f (regs_env f) = (\<lambda>p h. (f p, h))"
  "outb_f (regs_env f) = (\<lambda>p v h. h)"
  "cache_create_f (regs_env f) = Some [0]"
  by (simp_all add: regs_env_def)

lemma regs_env_inb_eq:
  "inb (regs_env f) p w = (f p, w\<lparr>trace := trace w @ [Inb p (f p)]\<rparr>)"
  by (simp add: inb_def)

lemma absent_identify:
  "\<exists>w5. ata_identify absent_env b 0 init_data w = Some (0, init_data, w5)"
  by (simp add: ata_identify_def Let_def absent_env_def inb_def split: prod.split)

lemma pool_world_fields [simp]:
  "devices_cache pool_world = Some [0]" "devices pool_world = None" "trace pool_world = []"
  "hw pool_world = ()" "stores pool_world = []"
  by (simp_all add: pool_world_def)

text \<open>
  C8, as the spec states it, fails: the result of \<open>ata_init_device\<close> does not tell
  the kind of failure. On a floating bus and on a bus where identify fails it returns
  the same null pointer; only the message printed differs.
\<close>

theorem ata_init_device_same_result:
  "map_option fst (ata_init_device floating_env ATA_PRIMARY_BUS ATA_PRIMARY_CTRL pool_world) =
     Some None \<and>
   map_option (last \<circ> trace \<circ> snd)
       (ata_init_device floating_env ATA_PRIMARY_BUS ATA_PRIMARY_CTRL pool_world) =
     Some (Printf ''ATA floating bus detected\<newline>'' []) \<and>
   map_option fst (ata_init_device absent_env ATA_PRIMARY_BUS ATA_PRIMARY_CTRL pool_world) =
     Some None \<and>
   map_option (last \<circ> trace \<circ> snd)
       (ata_init_device absent_env ATA_PRIMARY_BUS ATA_PRIMARY_CTRL pool_world) =
     Some (Printf ''ATA identify failed\<newline>'' [])"
proof -
  have f: "ata_init_device floating_env ATA_PRIMARY_BUS ATA_PRIMARY_CTRL pool_world =
      Some (None, cache_free 0 (printf ''ATA floating bus detected\<newline>'' []
        (snd (inb floating_env (ATA_PRIMARY_BUS + ATA_REG_STATUS)
          (pool_world\<lparr>devices_cache := Some [],
             mem := (mem pool_world)(0 := zero_device\<lparr>bus := ATA_PRIMARY_BUS,
               ctrl := ATA_PRIMARY_CTRL\<rparr>)\<rparr>)))))"
    by (simp add: ata_init_device_alloc [of pool_world 0 "[]"] ata_check_floating_bus_def
        floating_env_def regs_env_inb_eq)
  define w4 where "w4 = snd (inb absent_env (ATA_PRIMARY_BUS + ATA_REG_STATUS)
          (pool_world\<lparr>devices_cache := Some [],
             mem := (mem pool_world)(0 := zero_device\<lparr>bus := ATA_PRIMARY_BUS,
               ctrl := ATA_PRIMARY_CTRL\<rparr>)\<rparr>))"
  from absent_identify [of ATA_PRIMARY_BUS "replicate 256 0" w4] obtain w5 where
    i: "ata_identify absent_env ATA_PRIMARY_BUS 0 (replicate 256 0) w4 =
        Some (0, replicate 256 0, w5)" by blast
  have a: "ata_init_device absent_env ATA_PRIMARY_BUS ATA_PRIMARY_CTRL pool_world =
      Some (None, cache_free 0 (printf ''ATA identify failed\<newline>'' [] w5))"
    using i
    by (simp add: ata_init_device_alloc [of pool_world 0 "[]"] ata_check_floating_bus_def
        w4_def absent_env_def regs_env_inb_eq)
  show ?thesis
    unfolding f a by simp
qed

text \<open>
  C8, amended: when a slot has been allocated and the status register reads as all-ones,
  or identify then returns 0, \<open>ata_init_device\<close> returns the slot to the pool (the
  pool is as before the call), returns the null pointer, whatever the kind of failure,
  after printing the message of that kind, and leaves \<open>devices\<close> as it was; and
  \<open>ata_init\<close>, which stores the result, ends with an empty device list.
\<close>

theorem ata_init_device_failure:
  "(devices_cache w = Some (a # slots) \<longrightarrow>
   (let w3 = w\<lparr>devices_cache := Some slots,
              mem := (mem w)(a := zero_device\<lparr>bus := b, ctrl := c\<rparr>)\<rparr>;
        status = fst (inb env (b + ATA_REG_STATUS) w3);
        w4 = snd (inb env (b + ATA_REG_STATUS) w3)
    in (status = 0xff \<longrightarrow>
          (\<exists>w'. ata_init_device env b c w = Some (None, w') \<and>
             devices w' = devices w \<and> devices_cache w' = Some (a # slots) \<and>
             trace w' = trace w @
               [Inb (b + ATA_REG_STATUS) 0xff, Printf ''ATA floating bus detected\<newline>'' []])) \<and>
       (status \<noteq> 0xff \<and> ata_identify env b 0 (replicate 256 0) w4 = Some (0, data, w5) \<longrightarrow>
          (\<exists>w'. ata_init_device env b c w = Some (None, w') \<and>
             devices w' = devices w \<and> devices_cache w' = Some (a # slots) \<and>
             trace w' = trace w5 @ [Printf ''ATA identify failed\<newline>'' []])))) \<and>
   (cache_create_f env \<noteq> None \<and>
    ata_init_device env ATA_PRIMARY_BUS ATA_PRIMARY_CTRL (w\<lparr>devices_cache := cache_create_f env\<rparr>) =
      Some (None, v) \<longrightarrow>
      ata_init env w = Some (v\<lparr>devices := None\<rparr>))"
proof (rule conjI; rule impI)
  assume al: "devices_cache w = Some (a # slots)"
  define w3 where "w3 = w\<lparr>devices_cache := Some slots,
              mem := (mem w)(a := zero_device\<lparr>bus := b, ctrl := c\<rparr>)\<rparr>"
  define status where "status = fst (inb env (b + ATA_REG_STATUS) w3)"
  define w4 where "w4 = snd (inb env (b + ATA_REG_STATUS) w3)"
  have cf: "ata_check_floating_bus env b w3 = (status = 0xff, w4)"
    by (simp add: ata_check_floating_bus_def status_def w4_def split: prod.split)
  have f4: "devices w4 = devices w" "devices_cache w4 = Some slots"
    "trace w4 = trace w @ [Inb (b + ATA_REG_STATUS) status]"
    by (simp_all add: w4_def w3_def status_def)
  note unf = ata_init_device_alloc [OF al, of env b c, folded w3_def, unfolded cf prod.case]
  have A: "status = 0xff \<longrightarrow>
          (\<exists>w'. ata_init_device env b c w = Some (None, w') \<and>
             devices w' = devices w \<and> devices_cache w' = Some (a # slots) \<and>
             trace w' = trace w @
               [Inb (b + ATA_REG_STATUS) 0xff, Printf ''ATA floating bus detected\<newline>'' []])"
    using f4 by (simp add: unf)
  have B: "status \<noteq> 0xff \<and> ata_identify env b 0 (replicate 256 0) w4 = Some (0, data, w5) \<longrightarrow>
          (\<exists>w'. ata_init_device env b c w = Some (None, w') \<and>
             devices w' = devices w \<and> devices_cache w' = Some (a # slots) \<and>
             trace w' = trace w5 @ [Printf ''ATA identify failed\<newline>'' []])"
  proof
    assume h: "status \<noteq> 0xff \<and> ata_identify env b 0 (replicate 256 0) w4 = Some (0, data, w5)"
    then have i: "ata_identify env b 0 (replicate 256 0) w4 = Some (0, data, w5)" by simp
    from ata_identify_fields [OF i] f4
    have f5: "devices w5 = devices w" "devices_cache w5 = Some slots" by simp_all
    from h f5 show "\<exists>w'. ata_init_device env b c w = Some (None, w') \<and>
             devices w' = devices w \<and> devices_cache w' = Some (a # slots) \<and>
             trace w' = trace w5 @ [Printf ''ATA identify failed\<newline>'' []]"
      by (simp add: unf)
  qed
  from A B show "let w3 = w\<lparr>devices_cache := Some slots,
              mem := (mem w)(a := zero_device\<lparr>bus := b, ctrl := c\<rparr>)\<rparr>;
        status = fst (inb env (b + ATA_REG_STATUS) w3);
        w4 = snd (inb env (b + ATA_REG_STATUS) w3)
    in (status = 0xff \<longrightarrow>
          (\<exists>w'. ata_init_device env b c w = Some (None, w') \<and>
             devices w' = devices w \<and> devices_cache w' = Some (a # slots) \<and>
             trace w' = trace w @
               [Inb (b + ATA_REG_STATUS) 0xff, Printf ''ATA floating bus detected\<newline>'' []])) \<and>
       (status \<noteq> 0xff \<and> ata_identify env b 0 (replicate 256 0) w4 = Some (0, data, w5) \<longrightarrow>
          (\<exists>w'. ata_init_device env b c w = Some (None, w') \<and>
             devices w' = devices w \<and> devices_cache w' = Some (a # slots) \<and>
             trace w' = trace w5 @ [Printf ''ATA identify failed\<newline>'' []]))"
    unfolding Let_def w3_def [symmetric] status_def [symmetric] w4_def [symmetric]
    by (rule conjI)
next
  assume "cache_create_f env \<noteq> None \<and>
    ata_init_device env ATA_PRIMARY_BUS ATA_PRIMARY_CTRL (w\<lparr>devices_cache := cache_create_f env\<rparr>) =
      Some (None, v)"
  then show "ata_init env w = Some (v\<lparr>devices := None\<rparr>)"
    by (auto simp: ata_init_def Let_def)
qed

theorem ata_init_device_failure_witness:
  "devices_cache pool_world = Some [0] \<and>
   (\<exists>w'. ata_init_device floating_env ATA_PRIMARY_BUS ATA_PRIMARY_CTRL pool_world =
            Some (None, w') \<and>
      devices w' = devices pool_world \<and> devices_cache w' = Some [0] \<and>
      trace w' = [Inb 0x1f7 0xff, Printf ''ATA floating bus detected\<newline>'' []]) \<and>
   (\<exists>w'. ata_init_device absent_env ATA_PRIMARY_BUS ATA_PRIMARY_CTRL pool_world =
            Some (None, w') \<and>
      devices w' = devices pool_world \<and> devices_cache w' = Some [0] \<and>
      last (trace w') = Printf ''ATA identify failed\<newline>'' []) \<and>
   (\<exists>w'. ata_init floating_env (test_world ()) = Some w' \<and> devices w' = None)"
proof -
  define w3 where "w3 = pool_world\<lparr>devices_cache := Some [],
             mem := (mem pool_world)(0 := zero_device\<lparr>bus := ATA_PRIMARY_BUS,
               ctrl := ATA_PRIMARY_CTRL\<rparr>)\<rparr>"
  have c: "devices_cache pool_world = Some [0]" by simp
  have sf: "fst (inb floating_env (ATA_PRIMARY_BUS + ATA_REG_STATUS) w3) = 0xff"
    by (simp add: floating_env_def)
  have sa: "fst (inb absent_env (ATA_PRIMARY_BUS + ATA_REG_STATUS) w3) \<noteq> 0xff"
    by (simp add: absent_env_def)
  from absent_identify [of ATA_PRIMARY_BUS "replicate 256 0"
      "snd (inb absent_env (ATA_PRIMARY_BUS + ATA_REG_STATUS) w3)"] obtain w5 where
    i: "ata_identify absent_env ATA_PRIMARY_BUS 0 (replicate 256 0)
          (snd (inb absent_env (ATA_PRIMARY_BUS + ATA_REG_STATUS) w3)) =
        Some (0, replicate 256 0, w5)" by blast
  from ata_init_device_failure [where w = pool_world and a = 0 and slots = "[]" and
      b = ATA_PRIMARY_BUS and c = ATA_PRIMARY_CTRL and env = floating_env and
      data = "replicate 256 0" and ?w5.0 = w5 and v = pool_world] c sf
  have 1: "\<exists>w'. ata_init_device floating_env ATA_PRIMARY_BUS ATA_PRIMARY_CTRL pool_world =
            Some (None, w') \<and>
      devices w' = devices pool_world \<and> devices_cache w' = Some [0] \<and>
      trace w' = [Inb 0x1f7 0xff, Printf ''ATA floating bus detected\<newline>'' []]"
    unfolding Let_def w3_def [symmetric]
    by (simp add: ATA_PRIMARY_BUS_def ATA_REG_STATUS_def)
  from ata_init_device_failure [where w = pool_world and a = 0 and slots = "[]" and
      b = ATA_PRIMARY_BUS and c = ATA_PRIMARY_CTRL and env = absent_env and
      data = "replicate 256 0" and ?w5.0 = w5 and v = pool_world] c sa i
  have 2: "\<exists>w'. ata_init_device absent_env ATA_PRIMARY_BUS ATA_PRIMARY_CTRL pool_world =
            Some (None, w') \<and>
      devices w' = devices pool_world \<and> devices_cache w' = Some [0] \<and>
      last (trace w') = Printf ''ATA identify failed\<newline>'' []"
    unfolding Let_def w3_def [symmetric]
    by auto
  from 1 obtain v where
    v: "ata_init_device floating_env ATA_PRIMARY_BUS ATA_PRIMARY_CTRL pool_world = Some (None, v)"
    by blast
  have pw: "(test_world ())\<lparr>devices_cache := cache_create_f floating_env\<rparr> = pool_world"
    by (simp add: pool_world_def floating_env_def)
  from ata_init_device_failure [where w = "test_world ()" and a = 0 and slots = "[]" and
      b = ATA_PRIMARY_BUS and c = ATA_PRIMARY_CTRL and env = floating_env and
      data = "replicate 256 0" and ?w5.0 = w5 and v = v] v
  have 3: "ata_init floating_env (test_world ()) = Some (v\<lparr>devices := None\<rparr>)"
    unfolding pw by (simp add: floating_env_def)
  from c 1 2 3 show ?thesis by simp
qed

section \<open>The interrupt flag\<close>

text \<open>
  C6, as the spec states it, fails: \<open>ata_irq\<close> does not set the flag, it clears it.
  With the flag of the registered device set, \<open>ata_irq\<close> leaves it cleared, by the one
  assignment it makes; and on a controller that is ready the two assignments of a wait
  are those of \<open>ata_wait_ready\<close>, which sets the flag and then clears it.
\<close>

theorem ata_irq_clears_flag:
  "wait_irq (mem armed_world 0) = 1 \<and>
   ata_irq armed_world =
     Inr (armed_world\<lparr>mem := (mem armed_world)(0 := (mem armed_world 0)\<lparr>wait_irq := 0\<rparr>),
            stores := [\<lparr>st_site = In_ata_irq, st_dev = 0, st_val = 0, st_guard = False\<rparr>]\<rparr>) \<and>
   wait_irq (mem (projr (ata_irq armed_world)) 0) = 0 \<and>
   map_option stores (ata_wait_ready (regs_env (\<lambda>p. 0x40)) 0 (test_world ())) =
     Some [\<lparr>st_site = In_ata_wait_ready, st_dev = 0, st_val = 1, st_guard = False\<rparr>,
           \<lparr>st_site = In_ata_wait_ready, st_dev = 0, st_val = 0, st_guard = False\<rparr>]"
proof -
  have "map_option stores (ata_wait_ready (regs_env (\<lambda>p. 0x40)) 0 (test_world ())) =
     Some [\<lparr>st_site = In_ata_wait_ready, st_dev = 0, st_val = 1, st_guard = False\<rparr>,
           \<lparr>st_site = In_ata_wait_ready, st_dev = 0, st_val = 0, st_guard = False\<rparr>]"
    unfolding ata_wait_ready_def
    apply (subst ata_wait_ready_loop.simps)
    apply (simp add: ata_is_ready_def regs_env_inb_eq ATA_STATUS_RDY_def)
    done
  then show ?thesis
    by (simp add: ata_irq_def armed_world_def set_wait_irq_def primary_device_def)
qed

lemma replay_append: "replay (xs @ ys) f = replay ys (replay xs f)"
  by (induction xs arbitrary: f) simp_all

lemma logged_same:
  "stores w' = stores w \<Longrightarrow> (\<And>a. wait_irq (mem w' a) = wait_irq (mem w a)) \<Longrightarrow> logged P w w'"
  unfolding logged_def by (rule exI [of _ "[]"]) simp

lemma logged_mem: "stores w' = stores w \<Longrightarrow> mem w' = mem w \<Longrightarrow> logged P w w'"
  by (rule logged_same) simp_all

lemma logged_trans:
  assumes "logged P w1 w2" and "logged P w2 w3"
  shows "logged P w1 w3"
proof -
  from assms(1) obtain n1 where 1: "stores w2 = stores w1 @ n1" "\<forall>s\<in>set n1. P s"
    "\<forall>a. wait_irq (mem w2 a) = replay n1 (\<lambda>a. wait_irq (mem w1 a)) a"
    unfolding logged_def by blast
  from assms(2) obtain n2 where 2: "stores w3 = stores w2 @ n2" "\<forall>s\<in>set n2. P s"
    "\<forall>a. wait_irq (mem w3 a) = replay n2 (\<lambda>a. wait_irq (mem w2 a)) a"
    unfolding logged_def by blast
  from 1(3) have e: "(\<lambda>a. wait_irq (mem w2 a)) = replay n1 (\<lambda>a. wait_irq (mem w1 a))"
    by (simp add: fun_eq_iff)
  have "stores w3 = stores w1 @ (n1 @ n2)" using 1(1) 2(1) by simp
  moreover have "\<forall>s\<in>set (n1 @ n2). P s" using 1(2) 2(2) by auto
  moreover have "\<forall>a. wait_irq (mem w3 a) = replay (n1 @ n2) (\<lambda>a. wait_irq (mem w1 a)) a"
    using 2(3) unfolding e replay_append by simp
  ultimately show ?thesis unfolding logged_def by blast
qed

lemma logged_weaken: "logged P w w' \<Longrightarrow> (\<And>s. P s \<Longrightarrow> Q s) \<Longrightarrow> logged Q w w'"
  unfolding logged_def by blast

lemma logged_set:
  assumes "P \<lparr>st_site = s, st_dev = a, st_val = v, st_guard = spinlock (mem w a)\<rparr>"
  shows "logged P w (set_wait_irq s a v w)"
  unfolding logged_def
  by (rule exI [of _ "[\<lparr>st_site = s, st_dev = a, st_val = v, st_guard = spinlock (mem w a)\<rparr>]"])
    (simp add: assms)

lemma logged_irq:
  "ata_irq w = Inr w' \<Longrightarrow> logged (\<lambda>s. st_site s = In_ata_irq \<and> st_val s = 0) w w'"
  by (auto simp: ata_irq_def intro!: logged_set split: option.splits)

lemma logged_err_body:
  "logged (\<lambda>s. st_site s = In_ata_err_check \<and> st_val s = 0) w (ata_err_check_body env a w)"
proof -
  let ?P = "\<lambda>s. st_site s = In_ata_err_check \<and> st_val s = 0"
  let ?w1 = "snd (ata_has_err env a w)"
  have q: "logged ?P w ?w1"
    by (rule logged_mem) (simp_all add: ata_has_err_snd)
  show ?thesis
  proof (cases "wait_irq (mem w a) \<noteq> 0 \<and> fst (ata_has_err env a w) \<noteq> 0")
    case False
    then show ?thesis using q
      by (auto simp: ata_err_check_body_def logged_same split: prod.splits)
  next
    case True
    have "logged ?P ?w1 (set_wait_irq In_ata_err_check a 0 ?w1)"
      by (rule logged_set) simp
    from logged_trans [OF q this] True show ?thesis
      by (auto simp: ata_err_check_body_def split: prod.splits)
  qed
qed

lemma logged_err_loop:
  "ata_err_check_loop env d w = Some w' \<Longrightarrow>
     logged (\<lambda>s. st_site s = In_ata_err_check \<and> st_val s = 0) w w'"
proof (induction env d w w' rule: ata_err_check_loop_induct)
  case (step loop env d w w')
  show ?case
  proof (cases d)
    case None
    with step(2) show ?thesis by (simp add: logged_same)
  next
    case (Some a)
    with step(2) have "loop env (dev_next (mem (ata_err_check_body env a w) a)) (ata_err_check_body env a w) = Some w'"
      by (simp add: Let_def)
    from step(1) [OF this] logged_err_body [of w env a] show ?thesis
      by (rule logged_trans [rotated])
  qed
qed

lemma logged_run_hooks: "run_hooks env hs w = Some w' \<Longrightarrow> logged by_hook w w'"
proof (induction hs arbitrary: w)
  case Nil
  then show ?case by (simp add: logged_same)
next
  case (Cons h hs)
  show ?case
  proof (cases h)
    case Irq
    with Cons.prems obtain w1 where a: "ata_irq w = Inr w1" and b: "run_hooks env hs w1 = Some w'"
      by (auto split: sum.splits)
    from logged_irq [OF a] have "logged by_hook w w1"
      by (rule logged_weaken) (simp add: by_hook_def)
    from this Cons.IH [OF b] show ?thesis by (rule logged_trans)
  next
    case ErrCheck
    with Cons.prems obtain w1 where a: "ata_err_check env w = Some w1" and b: "run_hooks env hs w1 = Some w'"
      by (auto split: option.splits)
    from logged_err_loop [OF a [unfolded ata_err_check_def]] have "logged by_hook w w1"
      by (rule logged_weaken) (simp add: by_hook_def)
    from this Cons.IH [OF b] show ?thesis by (rule logged_trans)
  qed
qed

lemma logged_kernel_wait: "kernel_wait env w = Some w' \<Longrightarrow> logged by_hook w w'"
proof -
  assume a: "kernel_wait env w = Some w'"
  obtain hs h where k: "kernel_wait_f env (hw w) = (hs, h)" by (cases "kernel_wait_f env (hw w)")
  have "logged by_hook w (w\<lparr>hw := h, trace := trace w @ [KernelWait]\<rparr>)"
    by (rule logged_mem) simp_all
  moreover from a k have "run_hooks env hs (w\<lparr>hw := h, trace := trace w @ [KernelWait]\<rparr>) = Some w'"
    by (simp add: kernel_wait_def)
  ultimately show ?thesis by (blast intro: logged_trans logged_run_hooks)
qed

lemma logged_wait_loop: "ata_wait_ready_loop env d w = Some w' \<Longrightarrow> logged by_hook w w'"
proof (induction env d w w' rule: ata_wait_ready_loop_induct)
  case (step loop env d w w')
  show ?case
  proof (cases "wait_irq (mem w d) \<noteq> 0")
    case False
    with step(2) show ?thesis by (simp add: logged_same)
  next
    case True
    let ?w1 = "snd (ata_is_ready env (bus (mem w d)) w)"
    have q1: "logged by_hook w ?w1" by (rule logged_mem) (simp_all add: ata_is_ready_snd)
    show ?thesis
    proof (cases "fst (ata_is_ready env (bus (mem w d)) w) = 0")
      case False
      with True step(2) have "w' = ?w1" by (auto split: prod.splits)
      with q1 show ?thesis by simp
    next
      case z: True
      with True step(2) obtain w2 where k: "kernel_wait env ?w1 = Some w2" and l: "loop env d w2 = Some w'"
        by (auto split: prod.splits option.splits)
      from q1 logged_kernel_wait [OF k] step(1) [OF l] show ?thesis
        by (blast intro: logged_trans)
    qed
  qed
qed

lemma ata_wait_ready_stores:
  assumes "ata_wait_ready env d w = Some w'"
  shows "\<exists>mid. stores w' = stores w @
            \<lparr>st_site = In_ata_wait_ready, st_dev = d, st_val = 1,
              st_guard = spinlock (mem w d)\<rparr> # mid @
            [\<lparr>st_site = In_ata_wait_ready, st_dev = d, st_val = 0,
              st_guard = spinlock (mem w d)\<rparr>] \<and>
          (\<forall>s\<in>set mid. by_hook s) \<and>
          (\<forall>a. wait_irq (mem w' a) =
             replay (\<lparr>st_site = In_ata_wait_ready, st_dev = d, st_val = 1,
                       st_guard = spinlock (mem w d)\<rparr> # mid @
                     [\<lparr>st_site = In_ata_wait_ready, st_dev = d, st_val = 0,
                       st_guard = spinlock (mem w d)\<rparr>]) (\<lambda>a. wait_irq (mem w a)) a)"
proof -
  let ?w0 = "set_wait_irq In_ata_wait_ready d 1 w"
  from assms obtain wl where l: "ata_wait_ready_loop env d ?w0 = Some wl"
    and w': "w' = set_wait_irq In_ata_wait_ready d 0 wl"
    by (auto simp: ata_wait_ready_def split: option.splits)
  from logged_wait_loop [OF l] obtain mid where
    m: "stores wl = stores ?w0 @ mid" "\<forall>s\<in>set mid. by_hook s"
      "\<forall>a. wait_irq (mem wl a) = replay mid (\<lambda>a. wait_irq (mem ?w0 a)) a"
    unfolding logged_def by blast
  from quiet_wait_loop [OF l] have g: "spinlock (mem wl d) = spinlock (mem w d)"
    by (simp add: quiet_def)
  let ?new = "\<lparr>st_site = In_ata_wait_ready, st_dev = d, st_val = 1,
              st_guard = spinlock (mem w d)\<rparr> # mid @
            [\<lparr>st_site = In_ata_wait_ready, st_dev = d, st_val = 0,
              st_guard = spinlock (mem w d)\<rparr>]"
  have s: "stores w' = stores w @ ?new"
    by (simp add: w' m(1) g)
  have "logged (\<lambda>s. True) w ?w0" by (rule logged_set) simp
  moreover have "logged (\<lambda>s. True) ?w0 wl"
    by (rule logged_weaken [OF logged_wait_loop [OF l]]) simp
  moreover have "logged (\<lambda>s. True) wl w'" unfolding w' by (rule logged_set) simp
  ultimately have "logged (\<lambda>s. True) w w'" by (blast intro: logged_trans)
  then obtain n where n: "stores w' = stores w @ n"
    "\<forall>a. wait_irq (mem w' a) = replay n (\<lambda>a. wait_irq (mem w a)) a"
    unfolding logged_def by blast
  from n(1) s have "n = ?new" by simp
  with n(2) have "\<forall>a. wait_irq (mem w' a) = replay ?new (\<lambda>a. wait_irq (mem w a)) a"
    by simp
  with s m(2) show ?thesis by blast
qed

lemma logged_wait_ready_held:
  assumes g: "spinlock (mem w d)" and a: "ata_wait_ready env d w = Some w'"
  shows "logged (\<lambda>s. by_hook s \<or> by_waiter (Some d) s) w w'"
proof -
  from ata_wait_ready_stores [OF a] obtain mid where
    m: "stores w' = stores w @
            \<lparr>st_site = In_ata_wait_ready, st_dev = d, st_val = 1,
              st_guard = spinlock (mem w d)\<rparr> # mid @
            [\<lparr>st_site = In_ata_wait_ready, st_dev = d, st_val = 0,
              st_guard = spinlock (mem w d)\<rparr>]"
      "\<forall>s\<in>set mid. by_hook s"
      "\<forall>a. wait_irq (mem w' a) =
             replay (\<lparr>st_site = In_ata_wait_ready, st_dev = d, st_val = 1,
                       st_guard = spinlock (mem w d)\<rparr> # mid @
                     [\<lparr>st_site = In_ata_wait_ready, st_dev = d, st_val = 0,
                       st_guard = spinlock (mem w d)\<rparr>]) (\<lambda>a. wait_irq (mem w a)) a"
    by blast
  have "\<forall>s\<in>set (\<lparr>st_site = In_ata_wait_ready, st_dev = d, st_val = 1,
              st_guard = spinlock (mem w d)\<rparr> # mid @
            [\<lparr>st_site = In_ata_wait_ready, st_dev = d, st_val = 0,
              st_guard = spinlock (mem w d)\<rparr>]). by_hook s \<or> by_waiter (Some d) s"
    using m(2) g by (auto simp: by_waiter_def)
  with m(1,3) show ?thesis unfolding logged_def by blast
qed

lemma ata_read_words_stores:
  "ata_read_words env d j b p w = Some (b', p', w') \<Longrightarrow> stores w' = stores w"
proof (induction env d j b p w rule: ata_read_words.induct)
  case (1 env d j b p w)
  show ?case
  proof (cases "j < 256")
    case False
    with 1(2) show ?thesis by (simp add: ata_read_words.simps [of env d j])
  next
    case True
    let ?r = "inw env (bus (mem w d) + ATA_REG_DATA) w"
    from True 1(2) have pl: "p < length b"
      and rec: "ata_read_words env d (j + 1) (b[p := fst ?r]) (p + 1) (snd ?r) = Some (b', p', w')"
      by (auto simp: ata_read_words.simps [of env d j] split: prod.splits if_splits)
    from "1.IH" [OF True prod.collapse pl rec] show ?thesis by simp
  qed
qed

lemma ata_write_words_stores:
  "ata_write_words env d j b p w = Some (p', w') \<Longrightarrow> stores w' = stores w"
proof (induction env d j b p w rule: ata_write_words.induct)
  case (1 env d j b p w)
  show ?case
  proof (cases "j < 256")
    case False
    with 1(2) show ?thesis by (simp add: ata_write_words.simps [of env d j])
  next
    case True
    let ?w1 = "outw env (bus (mem w d) + ATA_REG_DATA) (b ! p) w"
    from True 1(2) have pl: "p < length b"
      and rec: "ata_write_words env d (j + 1) b (p + 1) ?w1 = Some (p', w')"
      by (auto simp: ata_write_words.simps [of env d j] split: if_splits)
    from "1.IH" [OF True pl rec] show ?thesis by simp
  qed
qed

lemma ata_read_loop_logged:
  "ata_read_loop env d i n b p w = Some (r, b', p', w') \<Longrightarrow> spinlock (mem w d) \<Longrightarrow>
     logged (\<lambda>s. by_hook s \<or> by_waiter (Some d) s) w w'"
proof (induction "n - i" arbitrary: i b p w)
  case 0
  then have "\<not> i < n" by simp
  with 0 show ?case by (simp add: ata_read_loop_done logged_same)
next
  case (Suc m)
  let ?P = "\<lambda>s. by_hook s \<or> by_waiter (Some d) s"
  from Suc have lt: "i < n" by simp
  from Suc.prems lt obtain w1 where a: "ata_wait_ready env d w = Some w1"
    by (auto simp: ata_read_loop_step split: option.splits)
  obtain e w2 where E: "ata_has_err env d w1 = (e, w2)" by (cases "ata_has_err env d w1")
  then have w2: "w2 = snd (ata_has_err env d w1)" by simp
  then have m2: "mem w2 = mem w1" "stores w2 = stores w1" by (simp_all add: ata_has_err_snd)
  from quiet_wait_ready [OF a] Suc.prems(2) m2 have g2: "spinlock (mem w2 d)"
    by (simp add: quiet_spinlock)
  have f2: "logged ?P w w2"
    using logged_wait_ready_held [OF Suc.prems(2) a] logged_mem [OF m2(2,1)]
    by (rule logged_trans)
  show ?case
  proof (cases "e \<noteq> 0")
    case True
    with Suc.prems lt a E have "w' = spin_unlock d w2" by (simp add: ata_read_loop_step)
    then have "logged ?P w2 w'" by (simp add: logged_same)
    with f2 show ?thesis by (rule logged_trans)
  next
    case False
    with Suc.prems lt a E obtain b1 p1 w3 where
      R: "ata_read_words env d 0 b p w2 = Some (b1, p1, w3)"
      by (auto simp: ata_read_loop_step split: option.splits)
    with Suc.prems lt a E False have l: "ata_read_loop env d (i + 1) n b1 p1 w3 = Some (r, b', p', w')"
      by (simp add: ata_read_loop_step)
    have z: "(0::nat) \<le> 256" by simp
    from ata_read_words_steady [OF R z] have m3: "mem w3 = mem w2" by blast
    from m3 ata_read_words_stores [OF R] have f3: "logged ?P w2 w3" by (simp add: logged_mem)
    from m3 g2 have g3: "spinlock (mem w3 d)" by simp
    from Suc.hyps(2) lt have m: "m = n - (i + 1)" by simp
    from f2 f3 Suc.hyps(1) [OF m l g3] show ?thesis by (blast intro: logged_trans)
  qed
qed

lemma ata_write_loop_logged:
  "ata_write_loop env d i n b p w = Some (r, p', w') \<Longrightarrow> spinlock (mem w d) \<Longrightarrow>
     logged (\<lambda>s. by_hook s \<or> by_waiter (Some d) s) w w'"
proof (induction "n - i" arbitrary: i p w)
  case 0
  then have "\<not> i < n" by simp
  with 0 show ?case by (simp add: ata_write_loop_done logged_same)
next
  case (Suc m)
  let ?P = "\<lambda>s. by_hook s \<or> by_waiter (Some d) s"
  from Suc have lt: "i < n" by simp
  from Suc.prems lt obtain w1 where a: "ata_wait_ready env d w = Some w1"
    by (auto simp: ata_write_loop_step split: option.splits)
  obtain e w2 where E: "ata_has_err env d w1 = (e, w2)" by (cases "ata_has_err env d w1")
  then have w2: "w2 = snd (ata_has_err env d w1)" by simp
  then have m2: "mem w2 = mem w1" "stores w2 = stores w1" by (simp_all add: ata_has_err_snd)
  from quiet_wait_ready [OF a] Suc.prems(2) m2 have g2: "spinlock (mem w2 d)"
    by (simp add: quiet_spinlock)
  have f2: "logged ?P w w2"
    using logged_wait_ready_held [OF Suc.prems(2) a] logged_mem [OF m2(2,1)]
    by (rule logged_trans)
  show ?case
  proof (cases "e \<noteq> 0")
    case True
    with Suc.prems lt a E have "w' = spin_unlock d w2" by (simp add: ata_write_loop_step)
    then have "logged ?P w2 w'" by (simp add: logged_same)
    with f2 show ?thesis by (rule logged_trans)
  next
    case False
    with Suc.prems lt a E obtain p1 w3 where
      R: "ata_write_words env d 0 b p w2 = Some (p1, w3)"
      by (auto simp: ata_write_loop_step split: option.splits)
    with Suc.prems lt a E False have l: "ata_write_loop env d (i + 1) n b p1 w3 = Some (r, p', w')"
      by (simp add: ata_write_loop_step)
    have z: "(0::nat) \<le> 256" by simp
    from ata_write_words_steady [OF R z] have m3: "mem w3 = mem w2" by blast
    from m3 ata_write_words_stores [OF R] have f3: "logged ?P w2 w3" by (simp add: logged_mem)
    from m3 g2 have g3: "spinlock (mem w3 d)" by simp
    from Suc.hyps(2) lt have m: "m = n - (i + 1)" by simp
    from f2 f3 Suc.hyps(1) [OF m l g3] show ?thesis by (blast intro: logged_trans)
  qed
qed

lemma ata_read_logged:
  assumes "ata_read env dev slave lba buff sectors w = Some (r, b', w')"
  shows "logged (\<lambda>s. by_hook s \<or> by_waiter dev s) w w'"
proof (cases "\<exists>d b. dev = Some d \<and> buff = Some b \<and> sectors \<le> 0xff")
  case False
  then have "dev = None \<or> buff = None \<or> sectors > 0xff" by (cases dev; cases buff) auto
  with assms have "w' = w" by (auto simp: ata_read_def split: option.splits)
  then show ?thesis by (simp add: logged_same)
next
  case True
  then obtain d b where v: "dev = Some d" "buff = Some b" "sectors \<le> 0xff" by blast
  let ?P = "\<lambda>s. by_hook s \<or> by_waiter (Some d) s"
  let ?w0 = "ata_setup env d slave lba sectors ATA_CMD_READ_SECTORS w"
  from assms v obtain r1 b1 p1 w1 where
    l: "ata_read_loop env d 0 (unat sectors) b 0 ?w0 = Some (r1, b1, p1, w1)"
    and w': "w' = w1 \<or> w' = spin_unlock d w1"
    by (auto simp: ata_read_setup split: option.splits)
  have f0: "logged ?P w ?w0" by (rule logged_same) (simp_all add: ata_setup_fields)
  have g0: "spinlock (mem ?w0 d)" by (simp add: ata_setup_fields)
  from w' have f1: "logged ?P w1 w'" by (auto simp: logged_same)
  from f0 ata_read_loop_logged [OF l g0] f1 show ?thesis
    unfolding v by (blast intro: logged_trans)
qed

lemma ata_write_logged:
  assumes "ata_write env dev slave lba buff sectors w = Some (r, w')"
  shows "logged (\<lambda>s. by_hook s \<or> by_waiter dev s) w w'"
proof (cases "\<exists>d b. dev = Some d \<and> buff = Some b \<and> sectors \<le> 0xff")
  case False
  then have "dev = None \<or> buff = None \<or> sectors > 0xff" by (cases dev; cases buff) auto
  with assms have "w' = w" by (auto simp: ata_write_def split: option.splits)
  then show ?thesis by (simp add: logged_same)
next
  case True
  then obtain d b where v: "dev = Some d" "buff = Some b" "sectors \<le> 0xff" by blast
  let ?P = "\<lambda>s. by_hook s \<or> by_waiter (Some d) s"
  let ?w0 = "ata_setup env d slave lba sectors ATA_CMD_WRITE_SECTORS w"
  from assms v obtain r1 p1 w1 where
    l: "ata_write_loop env d 0 (unat sectors) b 0 ?w0 = Some (r1, p1, w1)"
    and w': "w' = w1 \<or> w' = spin_unlock d (ata_command env (bus (mem w1 d)) ATA_CMD_CACHE_FLUSH w1)"
    by (auto simp: ata_write_setup split: option.splits)
  have f0: "logged ?P w ?w0" by (rule logged_same) (simp_all add: ata_setup_fields)
  have g0: "spinlock (mem ?w0 d)" by (simp add: ata_setup_fields)
  from w' have f1: "logged ?P w1 w'" by (auto simp: logged_same)
  from f0 ata_write_loop_logged [OF l g0] f1 show ?thesis
    unfolding v by (blast intro: logged_trans)
qed

lemma ata_get_type_untouched:
  "mem (snd (ata_get_type env dev slave w)) = mem w \<and>
   stores (snd (ata_get_type env dev slave w)) = stores w"
proof (cases dev)
  case None
  then show ?thesis by (simp add: ata_get_type_def)
next
  case (Some d)
  obtain cl w4 where 1: "inb env (bus (mem w d) + ATA_REG_CYLINDER_LOW) (ata_settled env d slave w) = (cl, w4)"
    by (cases "inb env (bus (mem w d) + ATA_REG_CYLINDER_LOW) (ata_settled env d slave w)")
  obtain ch w5 where 2: "inb env (bus (mem w d) + ATA_REG_CYLINDER_HIGH) w4 = (ch, w5)"
    by (cases "inb env (bus (mem w d) + ATA_REG_CYLINDER_HIGH) w4")
  from 1 have "w4 = snd (inb env (bus (mem w d) + ATA_REG_CYLINDER_LOW) (ata_settled env d slave w))"
    by simp
  then have m4: "mem w4 = mem w" "stores w4 = stores w" by simp_all
  from 2 have "w5 = snd (inb env (bus (mem w d) + ATA_REG_CYLINDER_HIGH) w4)" by simp
  then have "mem w5 = mem w" "stores w5 = stores w" using m4 by simp_all
  then show ?thesis
    unfolding Some ata_get_type_settled by (simp add: 1 2)
qed

lemma ata_init_device_untouched:
  assumes "ata_init_device env b c w = Some (p, w')"
  shows "stores w' = stores w \<and>
     (\<forall>a. wait_irq (mem w' a) = wait_irq (mem w a) \<or>
          (\<exists>slots. devices_cache w = Some (a # slots)) \<and> wait_irq (mem w' a) = 0)"
proof (cases "\<exists>a slots. devices_cache w = Some (a # slots)")
  case False
  then have "fst (cache_alloc w) = None \<and> snd (cache_alloc w) = w"
    by (cases "devices_cache w"; cases "the (devices_cache w)") (auto simp: cache_alloc_def)
  with assms have "w' = w"
    by (cases "cache_alloc w") (auto simp: ata_init_device_def)
  then show ?thesis by simp
next
  case True
  then obtain a slots where al: "devices_cache w = Some (a # slots)" by blast
  define w3 where "w3 = w\<lparr>devices_cache := Some slots,
                mem := (mem w)(a := zero_device\<lparr>bus := b, ctrl := c\<rparr>)\<rparr>"
  have f3: "stores w3 = stores w" "mem w3 = (mem w)(a := zero_device\<lparr>bus := b, ctrl := c\<rparr>)"
    by (simp_all add: w3_def)
  obtain fl w4 where cf: "ata_check_floating_bus env b w3 = (fl, w4)"
    by (cases "ata_check_floating_bus env b w3")
  then have "w4 = snd (inb env (b + ATA_REG_STATUS) w3)"
    by (auto simp: ata_check_floating_bus_def split: prod.splits)
  then have m4: "mem w4 = mem w3" "stores w4 = stores w3" by simp_all
  note unf = ata_init_device_alloc [OF al, of env b c, folded w3_def, unfolded cf prod.case]
  have fin: "mem w' = mem w3 \<and> stores w' = stores w3"
  proof (cases fl)
    case True
    with assms unf m4 show ?thesis by auto
  next
    case False
    with assms unf obtain ok data w5 where
      i: "ata_identify env b 0 (replicate 256 0) w4 = Some (ok, data, w5)"
      by (auto split: option.splits)
    from ata_identify_fields [OF i] have m5: "mem w5 = mem w4" "stores w5 = stores w4" by simp_all
    from assms unf False i have "mem w' = mem w5 \<and> stores w' = stores w5"
      by (auto simp: Let_def split: if_splits)
    with m5 m4 show ?thesis by simp
  qed
  have "wait_irq (mem w' x) = wait_irq (mem w x) \<or>
          (\<exists>slots. devices_cache w = Some (x # slots)) \<and> wait_irq (mem w' x) = 0" for x
    using fin f3 al by (cases "x = a") (simp_all add: zero_device_def)
  with fin f3 show ?thesis by simp
qed

lemma ata_init_untouched:
  assumes "ata_init env w = Some w'"
  shows "stores w' = stores w \<and>
     (\<forall>a. wait_irq (mem w' a) = wait_irq (mem w a) \<or>
          (\<exists>slots. cache_create_f env = Some (a # slots)) \<and> wait_irq (mem w' a) = 0)"
proof (cases "cache_create_f env")
  case None
  with assms have "w' = w\<lparr>devices_cache := None\<rparr>" by (simp add: ata_init_def Let_def)
  then show ?thesis by simp
next
  case (Some sl)
  let ?w1 = "w\<lparr>devices_cache := cache_create_f env\<rparr>"
  from assms Some obtain p w2 where
    i: "ata_init_device env ATA_PRIMARY_BUS ATA_PRIMARY_CTRL ?w1 = Some (p, w2)"
    and w': "w' = w2\<lparr>devices := p\<rparr>"
    by (auto simp: ata_init_def Let_def split: option.splits)
  from ata_init_device_untouched [OF i] show ?thesis
    by (simp add: w')
qed

lemma ata_wait_ready_first_read:
  assumes "ata_wait_ready env d w = Some w'"
  shows "\<exists>v rest. trace w' = trace w @ Inb (bus (mem w d) + ATA_REG_STATUS) v # rest"
proof -
  let ?w0 = "set_wait_irq In_ata_wait_ready d 1 w"
  from assms obtain wl where l: "ata_wait_ready_loop env d ?w0 = Some wl"
    and w': "w' = set_wait_irq In_ata_wait_ready d 0 wl"
    by (auto simp: ata_wait_ready_def split: option.splits)
  let ?p = "bus (mem w d) + ATA_REG_STATUS"
  let ?w1 = "snd (inb env ?p ?w0)"
  let ?v = "fst (inb env ?p ?w0)"
  have t1: "trace ?w1 = trace w @ [Inb ?p ?v]" by simp
  have unf: "ata_wait_ready_loop env d ?w0 =
      (if ?v AND ATA_STATUS_RDY = 0
       then (case kernel_wait env ?w1 of None \<Rightarrow> None
             | Some w2 \<Rightarrow> ata_wait_ready_loop env d w2)
       else Some ?w1)"
    by (subst ata_wait_ready_loop.simps) (simp add: ata_is_ready_def split: prod.split)
  have "\<exists>rest. trace wl = trace ?w1 @ rest"
  proof (cases "?v AND ATA_STATUS_RDY = 0")
    case False
    with l unf have "wl = ?w1" by simp
    then show ?thesis by simp
  next
    case True
    with l unf obtain w2 where k: "kernel_wait env ?w1 = Some w2"
      and l2: "ata_wait_ready_loop env d w2 = Some wl"
      by (auto split: option.splits)
    from quiet_trans [OF quiet_kernel_wait [OF k] quiet_wait_loop [OF l2]]
    show ?thesis unfolding quiet_def by blast
  qed
  then obtain rest where "trace wl = trace ?w1 @ rest" by blast
  with t1 w' have "trace w' = trace w @ Inb ?p ?v # rest" by simp
  then show ?thesis by blast
qed

lemma hooks_env_fields [simp]:
  "inb_f hooks_env = (\<lambda>p h. (0x01, h))"
  "outb_f hooks_env = (\<lambda>p v h. h)"
  "kernel_wait_f hooks_env = (\<lambda>h. ([ErrCheck, Irq], h))"
  by (simp_all add: hooks_env_def regs_env_def)

lemma hooks_env_inb:
  "inb hooks_env p w = (0x01, w\<lparr>trace := trace w @ [Inb p 0x01]\<rparr>)"
  by (simp add: inb_def)

lemma hooks_wait_ready:
  assumes "devices w = Some d" and "dev_next (mem w d) = None"
  shows "\<exists>w'. ata_wait_ready hooks_env d w = Some w' \<and>
     stores w' = stores w @
       [\<lparr>st_site = In_ata_wait_ready, st_dev = d, st_val = 1, st_guard = spinlock (mem w d)\<rparr>,
        \<lparr>st_site = In_ata_err_check, st_dev = d, st_val = 0, st_guard = spinlock (mem w d)\<rparr>,
        \<lparr>st_site = In_ata_irq, st_dev = d, st_val = 0, st_guard = spinlock (mem w d)\<rparr>,
        \<lparr>st_site = In_ata_wait_ready, st_dev = d, st_val = 0, st_guard = spinlock (mem w d)\<rparr>] \<and>
     mem w' = (mem w)(d := (mem w d)\<lparr>wait_irq := 0\<rparr>) \<and> devices w' = devices w"
  unfolding ata_wait_ready_def
  apply (subst ata_wait_ready_loop.simps)
  apply (simp add: ata_is_ready_def hooks_env_inb ATA_STATUS_RDY_def kernel_wait_def
      ata_err_check_def assms)
  apply (subst ata_err_check_loop.simps)
  apply (simp add: assms Let_def ata_err_check_body_def ata_has_err_def hooks_env_inb
      ATA_STATUS_ERR_def)
  apply (subst ata_err_check_loop.simps)
  apply (simp add: assms ata_irq_def)
  apply (subst ata_wait_ready_loop.simps)
  apply (simp add: assms)
  done

lemma hooks_has_err: "fst (ata_has_err hooks_env d w) \<noteq> 0"
  by (simp add: ata_has_err_def hooks_env_inb ATA_STATUS_ERR_def)

lemma armed_world_fields [simp]:
  "devices armed_world = Some 0" "mem armed_world a = primary_device\<lparr>wait_irq := 1\<rparr>"
  "trace armed_world = []" "hw armed_world = ()" "stores armed_world = []"
  by (simp_all add: armed_world_def)

lemma hooks_read:
  "\<exists>w'. ata_read hooks_env (Some 0) 0 0 (Some []) 1 armed_world = Some (- 1, Some [], w') \<and>
     stores w' =
       [\<lparr>st_site = In_ata_wait_ready, st_dev = 0, st_val = 1, st_guard = True\<rparr>,
        \<lparr>st_site = In_ata_err_check, st_dev = 0, st_val = 0, st_guard = True\<rparr>,
        \<lparr>st_site = In_ata_irq, st_dev = 0, st_val = 0, st_guard = True\<rparr>,
        \<lparr>st_site = In_ata_wait_ready, st_dev = 0, st_val = 0, st_guard = True\<rparr>]"
proof -
  let ?w0 = "ata_setup hooks_env 0 0 0 1 ATA_CMD_READ_SECTORS armed_world"
  have d: "devices ?w0 = Some 0" and n: "dev_next (mem ?w0 0) = None"
    by (simp_all add: ata_setup_fields)
  from hooks_wait_ready [OF d n] obtain w1 where
    a: "ata_wait_ready hooks_env 0 ?w0 = Some w1" and
    s: "stores w1 = stores ?w0 @
       [\<lparr>st_site = In_ata_wait_ready, st_dev = 0, st_val = 1, st_guard = spinlock (mem ?w0 0)\<rparr>,
        \<lparr>st_site = In_ata_err_check, st_dev = 0, st_val = 0, st_guard = spinlock (mem ?w0 0)\<rparr>,
        \<lparr>st_site = In_ata_irq, st_dev = 0, st_val = 0, st_guard = spinlock (mem ?w0 0)\<rparr>,
        \<lparr>st_site = In_ata_wait_ready, st_dev = 0, st_val = 0, st_guard = spinlock (mem ?w0 0)\<rparr>]"
    by blast
  obtain e w2 where E: "ata_has_err hooks_env 0 w1 = (e, w2)"
    by (cases "ata_has_err hooks_env 0 w1")
  with hooks_has_err [of 0 w1] have e: "e \<noteq> 0" by simp
  from E have "w2 = snd (ata_has_err hooks_env 0 w1)" by simp
  then have s2: "stores w2 = stores w1" by (simp add: ata_has_err_snd)
  have lt: "(0::nat) < Suc 0" by simp
  have z: "(1::u32) \<le> 0xff" by simp
  have "ata_read hooks_env (Some 0) 0 0 (Some []) 1 armed_world =
      Some (- 1, Some [], spin_unlock 0 w2)"
    by (simp add: ata_read_setup [OF z] ata_read_loop_step [OF lt] a E e)
  moreover have "stores (spin_unlock 0 w2) =
       [\<lparr>st_site = In_ata_wait_ready, st_dev = 0, st_val = 1, st_guard = True\<rparr>,
        \<lparr>st_site = In_ata_err_check, st_dev = 0, st_val = 0, st_guard = True\<rparr>,
        \<lparr>st_site = In_ata_irq, st_dev = 0, st_val = 0, st_guard = True\<rparr>,
        \<lparr>st_site = In_ata_wait_ready, st_dev = 0, st_val = 0, st_guard = True\<rparr>]"
    by (simp add: s2 s ata_setup_fields)
  ultimately show ?thesis by blast
qed

lemma hooks_write:
  "\<exists>w'. ata_write hooks_env (Some 0) 0 0 (Some []) 1 armed_world = Some (- 1, w') \<and>
     stores w' =
       [\<lparr>st_site = In_ata_wait_ready, st_dev = 0, st_val = 1, st_guard = True\<rparr>,
        \<lparr>st_site = In_ata_err_check, st_dev = 0, st_val = 0, st_guard = True\<rparr>,
        \<lparr>st_site = In_ata_irq, st_dev = 0, st_val = 0, st_guard = True\<rparr>,
        \<lparr>st_site = In_ata_wait_ready, st_dev = 0, st_val = 0, st_guard = True\<rparr>]"
proof -
  let ?w0 = "ata_setup hooks_env 0 0 0 1 ATA_CMD_WRITE_SECTORS armed_world"
  have d: "devices ?w0 = Some 0" and n: "dev_next (mem ?w0 0) = None"
    by (simp_all add: ata_setup_fields)
  from hooks_wait_ready [OF d n] obtain w1 where
    a: "ata_wait_ready hooks_env 0 ?w0 = Some w1" and
    s: "stores w1 = stores ?w0 @
       [\<lparr>st_site = In_ata_wait_ready, st_dev = 0, st_val = 1, st_guard = spinlock (mem ?w0 0)\<rparr>,
        \<lparr>st_site = In_ata_err_check, st_dev = 0, st_val = 0, st_guard = spinlock (mem ?w0 0)\<rparr>,
        \<lparr>st_site = In_ata_irq, st_dev = 0, st_val = 0, st_guard = spinlock (mem ?w0 0)\<rparr>,
        \<lparr>st_site = In_ata_wait_ready, st_dev = 0, st_val = 0, st_guard = spinlock (mem ?w0 0)\<rparr>]"
    by blast
  obtain e w2 where E: "ata_has_err hooks_env 0 w1 = (e, w2)"
    by (cases "ata_has_err hooks_env 0 w1")
  with hooks_has_err [of 0 w1] have e: "e \<noteq> 0" by simp
  from E have "w2 = snd (ata_has_err hooks_env 0 w1)" by simp
  then have s2: "stores w2 = stores w1" by (simp add: ata_has_err_snd)
  have lt: "(0::nat) < Suc 0" by simp
  have z: "(1::u32) \<le> 0xff" by simp
  have "ata_write hooks_env (Some 0) 0 0 (Some []) 1 armed_world = Some (- 1, spin_unlock 0 w2)"
    by (simp add: ata_write_setup [OF z] ata_write_loop_step [OF lt] a E e)
  moreover have "stores (spin_unlock 0 w2) =
       [\<lparr>st_site = In_ata_wait_ready, st_dev = 0, st_val = 1, st_guard = True\<rparr>,
        \<lparr>st_site = In_ata_err_check, st_dev = 0, st_val = 0, st_guard = True\<rparr>,
        \<lparr>st_site = In_ata_irq, st_dev = 0, st_val = 0, st_guard = True\<rparr>,
        \<lparr>st_site = In_ata_wait_ready, st_dev = 0, st_val = 0, st_guard = True\<rparr>]"
    by (simp add: s2 s ata_setup_fields)
  ultimately show ?thesis by blast
qed

text \<open>
  C6, amended: every assignment to an interrupt flag is logged with the function that
  makes it, and no flag changes without an entry in the log. The flag is set only by
  the waiter: \<open>ata_wait_ready\<close> stores 1 on entry (so its loop reads the status port
  at least once, whatever the flag was) and 0 before it returns, and in between only
  hooks assign the flag, storing 0. \<open>ata_irq\<close> makes one assignment, 0 to the head of
  the device list; \<open>ata_err_check\<close> only stores 0. In \<open>ata_read\<close> and \<open>ata_write\<close>
  every assignment is made either by \<open>ata_wait_ready\<close>, to the device of the call and
  with the guard of that device held, or by a hook during a wait. No other operation
  assigns the flag: \<open>ata_reset\<close> and \<open>ata_get_type\<close> change no device object, and
  \<open>ata_init_device\<close> and \<open>ata_init\<close> only zero-fill the slot taken from the pool.
\<close>

theorem wait_irq_writers:
  "(ata_irq w = Inr w1 \<longrightarrow>
      (\<exists>a. devices w = Some a \<and>
         stores w1 = stores w @
           [\<lparr>st_site = In_ata_irq, st_dev = a, st_val = 0, st_guard = spinlock (mem w a)\<rparr>]) \<and>
      logged by_hook w w1) \<and>
   (ata_err_check env w = Some w2 \<longrightarrow>
      logged (\<lambda>s. st_site s = In_ata_err_check \<and> st_val s = 0) w w2) \<and>
   (ata_wait_ready env d w = Some w3 \<longrightarrow>
      (\<exists>mid. stores w3 = stores w @
            \<lparr>st_site = In_ata_wait_ready, st_dev = d, st_val = 1,
              st_guard = spinlock (mem w d)\<rparr> # mid @
            [\<lparr>st_site = In_ata_wait_ready, st_dev = d, st_val = 0,
              st_guard = spinlock (mem w d)\<rparr>] \<and>
          (\<forall>s\<in>set mid. by_hook s)) \<and>
      logged (\<lambda>s. True) w w3 \<and> wait_irq (mem w3 d) = 0 \<and>
      (\<exists>v rest. trace w3 = trace w @ Inb (bus (mem w d) + ATA_REG_STATUS) v # rest)) \<and>
   (ata_read env dev slave lba buff sectors w = Some (r, buff', w4) \<longrightarrow>
      logged (\<lambda>s. by_hook s \<or> by_waiter dev s) w w4) \<and>
   (ata_write env dev slave lba buff sectors w = Some (r', w5) \<longrightarrow>
      logged (\<lambda>s. by_hook s \<or> by_waiter dev s) w w5) \<and>
   mem (ata_reset env dev w) = mem w \<and> stores (ata_reset env dev w) = stores w \<and>
   mem (snd (ata_get_type env dev slave w)) = mem w \<and>
   stores (snd (ata_get_type env dev slave w)) = stores w \<and>
   (ata_init_device env b c w = Some (p, w6) \<longrightarrow>
      stores w6 = stores w \<and>
      (\<forall>a. wait_irq (mem w6 a) = wait_irq (mem w a) \<or>
           (\<exists>slots. devices_cache w = Some (a # slots)) \<and> wait_irq (mem w6 a) = 0)) \<and>
   (ata_init env w = Some w7 \<longrightarrow>
      stores w7 = stores w \<and>
      (\<forall>a. wait_irq (mem w7 a) = wait_irq (mem w a) \<or>
           (\<exists>slots. cache_create_f env = Some (a # slots)) \<and> wait_irq (mem w7 a) = 0))"
proof (intro conjI impI)
  assume a: "ata_irq w = Inr w1"
  then show "\<exists>a. devices w = Some a \<and>
         stores w1 = stores w @
           [\<lparr>st_site = In_ata_irq, st_dev = a, st_val = 0, st_guard = spinlock (mem w a)\<rparr>]"
    by (auto simp: ata_irq_def split: option.splits)
  from logged_irq [OF a] show "logged by_hook w w1"
    by (rule logged_weaken) (simp add: by_hook_def)
next
  assume "ata_err_check env w = Some w2"
  then show "logged (\<lambda>s. st_site s = In_ata_err_check \<and> st_val s = 0) w w2"
    unfolding ata_err_check_def by (rule logged_err_loop)
next
  assume a: "ata_wait_ready env d w = Some w3"
  from ata_wait_ready_stores [OF a]
  show "\<exists>mid. stores w3 = stores w @
            \<lparr>st_site = In_ata_wait_ready, st_dev = d, st_val = 1,
              st_guard = spinlock (mem w d)\<rparr> # mid @
            [\<lparr>st_site = In_ata_wait_ready, st_dev = d, st_val = 0,
              st_guard = spinlock (mem w d)\<rparr>] \<and>
          (\<forall>s\<in>set mid. by_hook s)"
    by blast
  from ata_wait_ready_stores [OF a] show "logged (\<lambda>s. True) w w3"
    unfolding logged_def by blast
  from a show "wait_irq (mem w3 d) = 0"
    by (auto simp: ata_wait_ready_def split: option.splits)
  show "\<exists>v rest. trace w3 = trace w @ Inb (bus (mem w d) + ATA_REG_STATUS) v # rest"
    by (rule ata_wait_ready_first_read [OF a])
next
  show "mem (ata_reset env dev w) = mem w" by simp
  show "stores (ata_reset env dev w) = stores w" by simp
  show "mem (snd (ata_get_type env dev slave w)) = mem w"
    using ata_get_type_untouched [of env dev slave w] by blast
  show "stores (snd (ata_get_type env dev slave w)) = stores w"
    using ata_get_type_untouched [of env dev slave w] by blast
next
  assume "ata_read env dev slave lba buff sectors w = Some (r, buff', w4)"
  then show "logged (\<lambda>s. by_hook s \<or> by_waiter dev s) w w4" by (rule ata_read_logged)
next
  assume "ata_write env dev slave lba buff sectors w = Some (r', w5)"
  then show "logged (\<lambda>s. by_hook s \<or> by_waiter dev s) w w5" by (rule ata_write_logged)
next
  assume a: "ata_init_device env b c w = Some (p, w6)"
  from ata_init_device_untouched [OF a] show "stores w6 = stores w" by blast
  from ata_init_device_untouched [OF a]
  show "\<forall>a. wait_irq (mem w6 a) = wait_irq (mem w a) \<or>
           (\<exists>slots. devices_cache w = Some (a # slots)) \<and> wait_irq (mem w6 a) = 0"
    by blast
next
  assume a: "ata_init env w = Some w7"
  from ata_init_untouched [OF a] show "stores w7 = stores w" by blast
  from ata_init_untouched [OF a]
  show "\<forall>a. wait_irq (mem w7 a) = wait_irq (mem w a) \<or>
           (\<exists>slots. cache_create_f env = Some (a # slots)) \<and> wait_irq (mem w7 a) = 0"
    by blast
qed

theorem wait_irq_writers_witness:
  "(\<exists>w1. ata_irq armed_world = Inr w1 \<and>
      stores w1 = [\<lparr>st_site = In_ata_irq, st_dev = 0, st_val = 0, st_guard = False\<rparr>] \<and>
      logged by_hook armed_world w1 \<and>
      wait_irq (mem armed_world 0) = 1 \<and> wait_irq (mem w1 0) = 0 \<and> wait_irq (mem w1 1) = 1) \<and>
   (\<exists>w2. ata_err_check (regs_env (\<lambda>p. 0x41)) armed_world = Some w2 \<and>
      stores w2 = [\<lparr>st_site = In_ata_err_check, st_dev = 0, st_val = 0, st_guard = False\<rparr>] \<and>
      logged (\<lambda>s. st_site s = In_ata_err_check \<and> st_val s = 0) armed_world w2) \<and>
   (\<exists>w3. ata_wait_ready (regs_env (\<lambda>p. 0x40)) 0 (test_world ()) = Some w3 \<and>
      stores w3 =
        [\<lparr>st_site = In_ata_wait_ready, st_dev = 0, st_val = 1, st_guard = False\<rparr>,
         \<lparr>st_site = In_ata_wait_ready, st_dev = 0, st_val = 0, st_guard = False\<rparr>] \<and>
      logged (\<lambda>s. True) (test_world ()) w3 \<and> wait_irq (mem w3 0) = 0 \<and>
      (\<exists>v rest. trace w3 = Inb 0x1f7 v # rest)) \<and>
   (\<exists>w4. ata_read hooks_env (Some 0) 0 0 (Some []) 1 armed_world = Some (- 1, Some [], w4) \<and>
      stores w4 =
        [\<lparr>st_site = In_ata_wait_ready, st_dev = 0, st_val = 1, st_guard = True\<rparr>,
         \<lparr>st_site = In_ata_err_check, st_dev = 0, st_val = 0, st_guard = True\<rparr>,
         \<lparr>st_site = In_ata_irq, st_dev = 0, st_val = 0, st_guard = True\<rparr>,
         \<lparr>st_site = In_ata_wait_ready, st_dev = 0, st_val = 0, st_guard = True\<rparr>] \<and>
      logged (\<lambda>s. by_hook s \<or> by_waiter (Some 0) s) armed_world w4) \<and>
   (\<exists>w5. ata_write hooks_env (Some 0) 0 0 (Some []) 1 armed_world = Some (- 1, w5) \<and>
      stores w5 =
        [\<lparr>st_site = In_ata_wait_ready, st_dev = 0, st_val = 1, st_guard = True\<rparr>,
         \<lparr>st_site = In_ata_err_check, st_dev = 0, st_val = 0, st_guard = True\<rparr>,
         \<lparr>st_site = In_ata_irq, st_dev = 0, st_val = 0, st_guard = True\<rparr>,
         \<lparr>st_site = In_ata_wait_ready, st_dev = 0, st_val = 0, st_guard = True\<rparr>] \<and>
      logged (\<lambda>s. by_hook s \<or> by_waiter (Some 0) s) armed_world w5) \<and>
   (\<exists>w6. ata_init_device floating_env ATA_PRIMARY_BUS ATA_PRIMARY_CTRL pool_world =
        Some (None, w6) \<and>
      stores w6 = [] \<and> (\<forall>a. wait_irq (mem w6 a) = 0)) \<and>
   (\<exists>w7. ata_init floating_env (test_world ()) = Some w7 \<and> stores w7 = [])"
proof -
  let ?R = "regs_env (\<lambda>p. 0x40)"
  have 1: "\<exists>w1. ata_irq armed_world = Inr w1" by (simp add: ata_irq_def)
  have 2: "\<exists>w2. ata_err_check (regs_env (\<lambda>p. 0x41)) armed_world = Some w2 \<and>
      stores w2 = [\<lparr>st_site = In_ata_err_check, st_dev = 0, st_val = 0, st_guard = False\<rparr>]"
    unfolding ata_err_check_def
    apply (subst ata_err_check_loop.simps)
    apply (simp add: Let_def ata_err_check_body_def ata_has_err_def regs_env_inb_eq
        ATA_STATUS_ERR_def)
    apply (subst ata_err_check_loop.simps)
    apply simp
    done
  have 3: "\<exists>w3. ata_wait_ready ?R 0 (test_world ()) = Some w3 \<and>
      stores w3 =
        [\<lparr>st_site = In_ata_wait_ready, st_dev = 0, st_val = 1, st_guard = False\<rparr>,
         \<lparr>st_site = In_ata_wait_ready, st_dev = 0, st_val = 0, st_guard = False\<rparr>]"
    unfolding ata_wait_ready_def
    apply (subst ata_wait_ready_loop.simps)
    apply (simp add: ata_is_ready_def regs_env_inb_eq ATA_STATUS_RDY_def)
    done
  have 6: "\<exists>w6. ata_init_device floating_env ATA_PRIMARY_BUS ATA_PRIMARY_CTRL pool_world =
        Some (None, w6)"
    by (simp add: ata_init_device_alloc [of pool_world 0 "[]"] ata_check_floating_bus_def
        floating_env_def regs_env_inb_eq)
  from 1 obtain w1 where a1: "ata_irq armed_world = Inr w1" by blast
  from 2 obtain w2 where a2: "ata_err_check (regs_env (\<lambda>p. 0x41)) armed_world = Some w2"
    and s2: "stores w2 = [\<lparr>st_site = In_ata_err_check, st_dev = 0, st_val = 0, st_guard = False\<rparr>]"
    by blast
  from 3 obtain w3 where a3: "ata_wait_ready ?R 0 (test_world ()) = Some w3"
    and s3: "stores w3 =
        [\<lparr>st_site = In_ata_wait_ready, st_dev = 0, st_val = 1, st_guard = False\<rparr>,
         \<lparr>st_site = In_ata_wait_ready, st_dev = 0, st_val = 0, st_guard = False\<rparr>]"
    by blast
  from hooks_read obtain w4 where
    a4: "ata_read hooks_env (Some 0) 0 0 (Some []) 1 armed_world = Some (- 1, Some [], w4)"
    and s4: "stores w4 =
        [\<lparr>st_site = In_ata_wait_ready, st_dev = 0, st_val = 1, st_guard = True\<rparr>,
         \<lparr>st_site = In_ata_err_check, st_dev = 0, st_val = 0, st_guard = True\<rparr>,
         \<lparr>st_site = In_ata_irq, st_dev = 0, st_val = 0, st_guard = True\<rparr>,
         \<lparr>st_site = In_ata_wait_ready, st_dev = 0, st_val = 0, st_guard = True\<rparr>]"
    by blast
  from hooks_write obtain w5 where
    a5: "ata_write hooks_env (Some 0) 0 0 (Some []) 1 armed_world = Some (- 1, w5)"
    and s5: "stores w5 =
        [\<lparr>st_site = In_ata_wait_ready, st_dev = 0, st_val = 1, st_guard = True\<rparr>,
         \<lparr>st_site = In_ata_err_check, st_dev = 0, st_val = 0, st_guard = True\<rparr>,
         \<lparr>st_site = In_ata_irq, st_dev = 0, st_val = 0, st_guard = True\<rparr>,
         \<lparr>st_site = In_ata_wait_ready, st_dev = 0, st_val = 0, st_guard = True\<rparr>]"
    by blast
  from 6 obtain w6 where
    a6: "ata_init_device floating_env ATA_PRIMARY_BUS ATA_PRIMARY_CTRL pool_world = Some (None, w6)"
    by blast
  have pw: "(test_world ())\<lparr>devices_cache := cache_create_f floating_env\<rparr> = pool_world"
    by (simp add: pool_world_def floating_env_def)
  have a7: "ata_init floating_env (test_world ()) = Some (w6\<lparr>devices := None\<rparr>)"
    using a6 by (simp add: ata_init_def Let_def pw)
  from wait_irq_writers [where w = armed_world and ?w1.0 = w1] a1
  have c1: "stores w1 = [\<lparr>st_site = In_ata_irq, st_dev = 0, st_val = 0, st_guard = False\<rparr>] \<and>
      logged by_hook armed_world w1"
    by simp
  from c1 have f1: "wait_irq (mem armed_world 0) = 1 \<and> wait_irq (mem w1 0) = 0 \<and>
      wait_irq (mem w1 1) = 1"
    unfolding logged_def by auto
  from wait_irq_writers [where w = armed_world and env = "regs_env (\<lambda>p. 0x41)" and ?w2.0 = w2] a2
  have c2: "logged (\<lambda>s. st_site s = In_ata_err_check \<and> st_val s = 0) armed_world w2"
    by simp
  from wait_irq_writers [where w = "test_world ()" and env = ?R and d = 0 and ?w3.0 = w3] a3
  have c3: "logged (\<lambda>s. True) (test_world ()) w3 \<and> wait_irq (mem w3 0) = 0 \<and>
      (\<exists>v rest. trace w3 = Inb 0x1f7 v # rest)"
    by (simp add: ATA_PRIMARY_BUS_def ATA_REG_STATUS_def)
  from wait_irq_writers [where w = armed_world and env = hooks_env and dev = "Some 0"
      and slave = 0 and lba = 0 and buff = "Some []" and sectors = 1 and r = "- 1"
      and buff' = "Some []" and ?w4.0 = w4 and r' = "- 1" and ?w5.0 = w5] a4 a5
  have c4: "logged (\<lambda>s. by_hook s \<or> by_waiter (Some 0) s) armed_world w4 \<and>
            logged (\<lambda>s. by_hook s \<or> by_waiter (Some 0) s) armed_world w5"
    by simp
  from wait_irq_writers [where w = pool_world and env = floating_env and b = ATA_PRIMARY_BUS
      and c = ATA_PRIMARY_CTRL and p = None and ?w6.0 = w6, THEN conjunct2, THEN conjunct2,
      THEN conjunct2, THEN conjunct2, THEN conjunct2, THEN conjunct2, THEN conjunct2,
      THEN conjunct2, THEN conjunct2, THEN conjunct1, THEN mp, OF a6]
  have c6: "stores w6 = [] \<and> (\<forall>a. wait_irq (mem w6 a) = 0)"
    by (auto simp: pool_world_def)
  from wait_irq_writers [where w = "test_world ()" and env = floating_env
      and ?w7.0 = "w6\<lparr>devices := None\<rparr>"] a7
  have c7: "stores (w6\<lparr>devices := None\<rparr>) = []"
    by simp
  from a1 a2 s2 a3 s3 a4 s4 a5 s5 a6 a7 c1 f1 c2 c3 c4 c6 c7 show ?thesis by blast
qed

end
